theory Spec2Isabelle
  imports
    Complex_Main
    "HOL-Library.Char_ord"
    "HOL-Library.List_Lexorder"
    "HOL-Library.Multiset"
begin

section \<open>Data model (game.py, assets.py)\<close>

text \<open>
  An \<open>Item\<close> has a name and an optional recipe, the list of its ingredient Items
  (\<open>None\<close> for an Item that can only be found). No method of the program assigns to
  a field of an Item after its construction, and the list stored as a recipe is never
  changed afterwards, so an Item is modelled by its value.
\<close>

datatype item = Item (name: string) (recipe: "item list option")

text \<open>\<open>Item.__eq__\<close> and \<open>Item.__lt__\<close> compare the names only.\<close>

definition item_eq :: "item \<Rightarrow> item \<Rightarrow> bool" where
  "item_eq a b = (name a = name b)"

definition item_lt :: "item \<Rightarrow> item \<Rightarrow> bool" where
  "item_lt a b = (name a < name b)"

text \<open>
  Exceptions of the Python runtime that the modelled code can raise, and the outcome of
  a computation that consumes random draws. Randomness is an explicit list of natural
  numbers: every call of \<open>random.choice\<close>, \<open>random.randint\<close> or
  \<open>random.randrange\<close> consumes the next number. A retry loop that finds the list
  used up has not returned: that is \<open>Starved\<close>.
\<close>

datatype py_error = IndexError | ValueError | KeyError | AttributeError | UnboundLocalError

datatype 'a outcome = Returned 'a | Raised py_error | Starved

text \<open>\<open>random.choice(seq)\<close>: IndexError on an empty sequence, else the element at a
  random index below \<open>len(seq)\<close>, here the draw reduced modulo the length.\<close>

definition choice :: "'a list \<Rightarrow> nat \<Rightarrow> py_error + 'a" where
  "choice seq r = (if seq = [] then Inl IndexError else Inr (seq ! (r mod length seq)))"

text \<open>\<open>x in xs\<close> for a list of Items: some element equals \<open>x\<close> by \<open>__eq__\<close>.\<close>

definition item_in :: "item \<Rightarrow> item list \<Rightarrow> bool" where
  "item_in x xs = list_ex (\<lambda>u. item_eq u x) xs"

text \<open>\<open>xs.remove(x)\<close>: drops the first element equal to \<open>x\<close>, ValueError if there is
  none.\<close>

fun list_remove :: "item list \<Rightarrow> item \<Rightarrow> py_error + item list" where
  "list_remove [] x = Inl ValueError"
| "list_remove (u # us) x =
     (if item_eq u x then Inr us
      else (case list_remove us x of Inl e \<Rightarrow> Inl e | Inr us' \<Rightarrow> Inr (u # us')))"

record recipebook =
  chapters :: "string list"
  titles :: "string list"
  recipes :: "item list"

subsection \<open>The static tables of assets.py\<close>

definition MAP_SETUP :: "(string \<times> (string \<times> string) list) list" where
  "MAP_SETUP =
     [(''Swamp'', [(''E'', ''Forest'')]),
      (''Forest'', [(''W'', ''Swamp''), (''S'', ''Cauldron''), (''E'', ''Town'')]),
      (''Cauldron'', [(''N'', ''Forest'')]),
      (''Town'', [(''W'', ''Forest''), (''N'', ''Cave''), (''E'', ''Graveyard'')]),
      (''Cave'', [(''S'', ''Town'')]),
      (''Graveyard'', [(''W'', ''Town'')])]"

definition CHAPTER_TITLES :: "(string \<times> string) list" where
  "CHAPTER_TITLES =
     [(''0'', ''Wounds''), (''1'', ''Ailments''), (''2'', ''Curses''), (''3'', ''Hauntings'')]"

definition ITEMS_BY_INGREDIENTS :: "(string \<times> string list) list" where
  "ITEMS_BY_INGREDIENTS =
     [(''FOUND'', [''Purple Mushroom'', ''Forget-Me-Not'', ''Firefly'', ''Mandrake Root'',
                   ''Green Mushroom'', ''Spring Water'', ''Red Mushroom'', ''Glow Worm'',
                   ''Skull'']),
      (''BASIC'', [''Goodberry'', ''Antidote'', ''Evil Eye'']),
      (''INTERMEDIATE'', [''Health Potion'', ''Awakening'', ''Amulet'']),
      (''ADVANCED'', [''Banishing Sigil'', ''Substitute Doll''])]"

section \<open>Game.create\_book\<close>

text \<open>
  The loop \<open>while draw in used: draw = random.choice(recipes)\<close>, entered with the
  first draw already made.
\<close>

fun redraw :: "item list \<Rightarrow> item list \<Rightarrow> item \<Rightarrow> nat list \<Rightarrow> (item \<times> nat list) outcome" where
  "redraw rcps used draw rs =
     (if item_in draw used then
        (case rs of
           [] \<Rightarrow> Starved
         | r # rs' \<Rightarrow>
             (case choice rcps r of
                Inl e \<Rightarrow> Raised e
              | Inr d \<Rightarrow> redraw rcps used d rs'))
      else Returned (draw, rs))"

text \<open>
  The loop \<open>for i in range(2)\<close>, with the number of rounds left as first argument:
  one draw, the retry loop, then the draw is appended to \<open>ingredients\<close> and to
  \<open>used\<close>.
\<close>

fun draw_ingredients ::
  "nat \<Rightarrow> item list \<Rightarrow> item list \<Rightarrow> item list \<Rightarrow> nat list
     \<Rightarrow> (item list \<times> item list \<times> nat list) outcome" where
  "draw_ingredients 0 rcps ingredients used rs = Returned (ingredients, used, rs)"
| "draw_ingredients (Suc n) rcps ingredients used rs =
     (case rs of
        [] \<Rightarrow> Starved
      | r # rs1 \<Rightarrow>
          (case choice rcps r of
             Inl e \<Rightarrow> Raised e
           | Inr d \<Rightarrow>
               (case redraw rcps used d rs1 of
                  Returned (draw, rs2) \<Rightarrow>
                    draw_ingredients n rcps (ingredients @ [draw]) (used @ [draw]) rs2
                | Raised e \<Rightarrow> Raised e
                | Starved \<Rightarrow> Starved)))"

text \<open>The loop \<open>for name in item\<close> of a level that is not FOUND.\<close>

fun craft_level ::
  "string list \<Rightarrow> item list \<Rightarrow> item list \<Rightarrow> nat list
     \<Rightarrow> (item list \<times> item list \<times> nat list) outcome" where
  "craft_level [] rcps used rs = Returned (rcps, used, rs)"
| "craft_level (nm # nms) rcps used rs =
     (case draw_ingredients 2 rcps [] used rs of
        Returned (ingredients, used', rs') \<Rightarrow>
          craft_level nms (rcps @ [Item nm (Some ingredients)]) used' rs'
      | Raised e \<Rightarrow> Raised e
      | Starved \<Rightarrow> Starved)"

text \<open>The loop \<open>for level, item in assets.ITEMS_BY_INGREDIENTS.items()\<close>.\<close>

fun fill_levels ::
  "(string \<times> string list) list \<Rightarrow> item list \<Rightarrow> item list \<Rightarrow> nat list
     \<Rightarrow> (item list \<times> item list \<times> nat list) outcome" where
  "fill_levels [] rcps used rs = Returned (rcps, used, rs)"
| "fill_levels ((level, names) # rest) rcps used rs =
     (if level = ''FOUND'' then
        fill_levels rest (rcps @ map (\<lambda>nm. Item nm None) names) used rs
      else
        (case craft_level names rcps used rs of
           Returned (rcps', used', rs') \<Rightarrow> fill_levels rest rcps' used' rs'
         | Raised e \<Rightarrow> Raised e
         | Starved \<Rightarrow> Starved))"

text \<open>
  \<open>create_book\<close> over a given tier table; the program runs it on
  \<open>ITEMS_BY_INGREDIENTS\<close>. The book and the draws left over are returned.
\<close>

definition create_book_from ::
  "(string \<times> string list) list \<Rightarrow> nat list \<Rightarrow> (recipebook \<times> nat list) outcome" where
  "create_book_from tbl rs =
     (case fill_levels tbl [] [] rs of
        Returned (rcps, used, rs') \<Rightarrow>
          Returned (\<lparr>chapters = map fst CHAPTER_TITLES,
                     titles = map snd CHAPTER_TITLES,
                     recipes = rcps\<rparr>, rs')
      | Raised e \<Rightarrow> Raised e
      | Starved \<Rightarrow> Starved)"

definition create_book :: "nat list \<Rightarrow> (recipebook \<times> nat list) outcome" where
  "create_book rs = create_book_from ITEMS_BY_INGREDIENTS rs"


section \<open>Game.create\_map, Game.get\_location, Game.create\_player\<close>

text \<open>
  A Location has a name; its items and neighbors are \<open>None\<close> when it is constructed
  and are filled in by \<open>create_map\<close> (the items of the Cauldron stay \<open>None\<close>). The six
  subclasses of Location only fix the name.
\<close>

record location =
  loc_name :: string
  items :: "item list option"
  neighbors :: "(string \<times> string) list option"

definition Location :: "string \<Rightarrow> location" where
  "Location nm = \<lparr>loc_name = nm, items = None, neighbors = None\<rparr>"

definition initial_locations :: "location list" where
  "initial_locations =
     [Location ''Cauldron'', Location ''Swamp'', Location ''Forest'',
      Location ''Town'', Location ''Cave'', Location ''Graveyard'']"

text \<open>The index that \<open>random.choice\<close> selects, for a choice whose result is updated
  in place afterwards.\<close>

definition choice_index :: "'a list \<Rightarrow> nat \<Rightarrow> py_error + nat" where
  "choice_index seq r = (if seq = [] then Inl IndexError else Inr (r mod length seq))"

text \<open>The loop \<open>for i in range(items_per_loc)\<close> for one Location: a random found Item
  is removed from \<open>found_items\<close> and appended to the Location's items.\<close>

fun take_items ::
  "nat \<Rightarrow> item list \<Rightarrow> item list \<Rightarrow> nat list
     \<Rightarrow> (item list \<times> item list \<times> nat list) outcome" where
  "take_items 0 found_items loc_items rs = Returned (found_items, loc_items, rs)"
| "take_items (Suc n) found_items loc_items rs =
     (case rs of
        [] \<Rightarrow> Starved
      | r # rs' \<Rightarrow>
          (case choice found_items r of
             Inl e \<Rightarrow> Raised e
           | Inr selected_item \<Rightarrow>
               (case list_remove found_items selected_item of
                  Inl e \<Rightarrow> Raised e
                | Inr found_items' \<Rightarrow>
                    take_items n found_items' (loc_items @ [selected_item]) rs')))"

text \<open>The loop \<open>for loc in self.locations\<close>: the neighbors come from \<open>MAP_SETUP\<close>,
  the Cauldron is skipped, every other Location gets \<open>items_per_loc\<close> Items.\<close>

fun place_items ::
  "location list \<Rightarrow> nat \<Rightarrow> item list \<Rightarrow> nat list
     \<Rightarrow> (location list \<times> item list \<times> nat list) outcome" where
  "place_items [] items_per_loc found_items rs = Returned ([], found_items, rs)"
| "place_items (loc # rest) items_per_loc found_items rs =
     (case map_of MAP_SETUP (loc_name loc) of
        None \<Rightarrow> Raised KeyError
      | Some nb \<Rightarrow>
          (if loc_name loc = ''Cauldron'' then
             (case place_items rest items_per_loc found_items rs of
                Returned (rest', found_items', rs') \<Rightarrow>
                  Returned (loc\<lparr>neighbors := Some nb\<rparr> # rest', found_items', rs')
              | Raised e \<Rightarrow> Raised e
              | Starved \<Rightarrow> Starved)
           else
             (case take_items items_per_loc found_items [] rs of
                Returned (found_items1, loc_items, rs1) \<Rightarrow>
                  (case place_items rest items_per_loc found_items1 rs1 of
                     Returned (rest', found_items', rs') \<Rightarrow>
                       Returned (loc\<lparr>neighbors := Some nb, items := Some loc_items\<rparr> # rest',
                                 found_items', rs')
                   | Raised e \<Rightarrow> Raised e
                   | Starved \<Rightarrow> Starved)
              | Raised e \<Rightarrow> Raised e
              | Starved \<Rightarrow> Starved)))"

text \<open>The loop \<open>while selected_loc.name == "Cauldron"\<close>, on the index of the selected
  Location.\<close>

fun pick_location :: "location list \<Rightarrow> nat \<Rightarrow> nat list \<Rightarrow> (nat \<times> nat list) outcome" where
  "pick_location locs sel rs =
     (if loc_name (locs ! sel) = ''Cauldron'' then
        (case rs of
           [] \<Rightarrow> Starved
         | r # rs' \<Rightarrow>
             (case choice_index locs r of
                Inl e \<Rightarrow> Raised e
              | Inr sel' \<Rightarrow> pick_location locs sel' rs'))
      else Returned (sel, rs))"

text \<open>The loop \<open>for i in range(leftover_items)\<close>.\<close>

fun distribute_leftover ::
  "nat \<Rightarrow> location list \<Rightarrow> item list \<Rightarrow> nat list
     \<Rightarrow> (location list \<times> item list \<times> nat list) outcome" where
  "distribute_leftover 0 locs found_items rs = Returned (locs, found_items, rs)"
| "distribute_leftover (Suc n) locs found_items rs =
     (case rs of
        [] \<Rightarrow> Starved
      | r # rs1 \<Rightarrow>
          (case choice_index locs r of
             Inl e \<Rightarrow> Raised e
           | Inr sel0 \<Rightarrow>
               (case pick_location locs sel0 rs1 of
                  Raised e \<Rightarrow> Raised e
                | Starved \<Rightarrow> Starved
                | Returned (sel, rs2) \<Rightarrow>
                    (case rs2 of
                       [] \<Rightarrow> Starved
                     | r2 # rs3 \<Rightarrow>
                         (case choice found_items r2 of
                            Inl e \<Rightarrow> Raised e
                          | Inr selected_item \<Rightarrow>
                              (case items (locs ! sel) of
                                 None \<Rightarrow> Raised AttributeError
                               | Some loc_items \<Rightarrow>
                                   (case list_remove found_items selected_item of
                                      Inl e \<Rightarrow> Raised e
                                    | Inr found_items' \<Rightarrow>
                                        distribute_leftover n
                                          (locs[sel := (locs ! sel)
                                             \<lparr>items := Some (loc_items @ [selected_item])\<rparr>])
                                          found_items' rs3)))))))"

definition create_map :: "recipebook \<Rightarrow> nat list \<Rightarrow> (location list \<times> nat list) outcome" where
  "create_map bk rs =
     (let locs = initial_locations;
          found_items = filter (\<lambda>x. recipe x = None) (recipes bk);
          items_per_loc = length found_items div (length locs - 1);
          leftover_items = length found_items mod (length locs - 1)
      in case place_items locs items_per_loc found_items rs of
           Raised e \<Rightarrow> Raised e
         | Starved \<Rightarrow> Starved
         | Returned (locs1, found_items1, rs1) \<Rightarrow>
             (case distribute_leftover leftover_items locs1 found_items1 rs1 of
                Raised e \<Rightarrow> Raised e
              | Starved \<Rightarrow> Starved
              | Returned (locs2, found_items2, rs2) \<Rightarrow> Returned (locs2, rs2)))"

section \<open>Player, Customer and Game\<close>

record player =
  location :: location
  inventory :: "item list"
  score :: int
  completed :: "item list"

text \<open>
  A timestamp is the number that \<open>time.time()\<close> returned; the clock is an argument of
  every operation that reads it. The model stores timestamps and does no arithmetic on
  them: \<open>Customer.time_remaining\<close>, which subtracts them in floating point, is not
  modelled.
\<close>

record customer =
  cust_name :: int
  order :: item
  points :: int
  waittime :: int
  maketime :: real

text \<open>The Game after \<open>setup\<close>, when all four attributes hold their objects.\<close>

record game =
  player :: player
  locations :: "location list"
  book :: recipebook
  customers :: "customer list"

definition get_location :: "location list \<Rightarrow> string \<Rightarrow> py_error + location" where
  "get_location locs next_loc =
     (let found = filter (\<lambda>l. loc_name l = next_loc) locs
      in if found = [] then Inl IndexError else Inr (last found))"

definition get_item :: "recipebook \<Rightarrow> string \<Rightarrow> py_error + item" where
  "get_item bk item_name =
     (let found = filter (\<lambda>i. name i = item_name) (recipes bk)
      in if found = [] then Inl IndexError else Inr (last found))"

definition create_player :: "location list \<Rightarrow> py_error + player" where
  "create_player locs =
     (case get_location locs ''Cauldron'' of
        Inl e \<Rightarrow> Inl e
      | Inr l \<Rightarrow> Inr \<lparr>location = l, inventory = [], score = 0, completed = []\<rparr>)"

section \<open>Player.move, pickup, trash, mix\<close>

definition move :: "game \<Rightarrow> string \<Rightarrow> py_error + game" where
  "move g direction =
     (case neighbors (location (player g)) of
        None \<Rightarrow> Inl AttributeError
      | Some nb \<Rightarrow>
          (if direction \<in> set (map fst nb) then
             (case map_of nb direction of
                None \<Rightarrow> Inl KeyError
              | Some next_loc \<Rightarrow>
                  (case get_location (locations g) next_loc of
                     Inl e \<Rightarrow> Inl e
                   | Inr l \<Rightarrow> Inr (g\<lparr>player := (player g)\<lparr>location := l\<rparr>\<rparr>)))
           else Inr g))"

text \<open>
  \<open>copy.deepcopy\<close> of an Item builds a new Item with the same name and a deep copy
  of the recipe list. The inventory is a list of its own, made by \<open>create_player\<close>;
  \<open>pickup\<close> and \<open>trash\<close> change this list and nothing else.
\<close>

fun deepcopy :: "item \<Rightarrow> item" where
  "deepcopy (Item nm r) = Item nm (map_option (map deepcopy) r)"

definition pickup :: "player \<Rightarrow> item \<Rightarrow> player" where
  "pickup p it = p\<lparr>inventory := inventory p @ [deepcopy it]\<rparr>"

definition trash :: "player \<Rightarrow> item \<Rightarrow> py_error + player" where
  "trash p it =
     (case list_remove (inventory p) it of
        Inl e \<Rightarrow> Inl e
      | Inr inventory' \<Rightarrow> Inr (p\<lparr>inventory := inventory'\<rparr>))"

text \<open>\<open>sorted\<close> on a list of Items is a stable sort in the order of \<open>item_lt\<close>, that
  is by name, and \<open>==\<close> on two lists of Items holds when they have the same length and
  equal Items at every position.\<close>

definition sorted_items :: "item list \<Rightarrow> item list" where
  "sorted_items xs = sort_key name xs"

definition items_eq :: "item list \<Rightarrow> item list \<Rightarrow> bool" where
  "items_eq xs ys = list_all2 item_eq xs ys"

fun mix_loop :: "item list \<Rightarrow> item list \<Rightarrow> item option" where
  "mix_loop [] ingredients = None"
| "mix_loop (it # rest) ingredients =
     (case recipe it of
        None \<Rightarrow> mix_loop rest ingredients
      | Some r \<Rightarrow>
          (if items_eq (sorted_items ingredients) (sorted_items r) then Some it
           else mix_loop rest ingredients))"

definition mix :: "recipebook \<Rightarrow> item list \<Rightarrow> item option" where
  "mix recipebook ingredients = mix_loop (recipes recipebook) ingredients"

section \<open>Customers: create\_customers, update\_customer, deliver\_order\<close>

text \<open>\<open>random.randint(a, b)\<close> and \<open>random.randrange(start, stop, step)\<close> for a
  positive step; the program calls them on constants with a non-empty range.\<close>

definition randint :: "int \<Rightarrow> int \<Rightarrow> nat \<Rightarrow> int" where
  "randint a b r = a + int (r mod nat (b - a + 1))"

definition randrange :: "int \<Rightarrow> int \<Rightarrow> int \<Rightarrow> nat \<Rightarrow> int" where
  "randrange start stop step r =
     start + step * int (r mod nat ((stop - start + step - 1) div step))"

text \<open>\<open>nm in assets.ITEMS_BY_INGREDIENTS[level]\<close>.\<close>

definition in_level :: "string \<Rightarrow> string \<Rightarrow> py_error + bool" where
  "in_level nm level =
     (case map_of ITEMS_BY_INGREDIENTS level of
        None \<Rightarrow> Inl KeyError
      | Some names \<Rightarrow> Inr (nm \<in> set names))"

text \<open>The two assignments of one branch: points from \<open>randint\<close>, then waittime from
  \<open>randrange\<close>.\<close>

definition roll ::
  "int \<Rightarrow> int \<Rightarrow> int \<Rightarrow> int \<Rightarrow> int \<Rightarrow> nat list \<Rightarrow> ((int \<times> int) option \<times> nat list) outcome" where
  "roll lo hi start stop step rs =
     (case rs of
        r1 # r2 # rs' \<Rightarrow> Returned (Some (randint lo hi r1, randrange start stop step r2), rs')
      | _ \<Rightarrow> Starved)"

text \<open>
  The chain \<open>if ... elif ... elif ...\<close> on the tier of the order, which is written out
  twice in the source, in \<open>create_customers\<close> and in \<open>update_customer\<close>. It has no
  \<open>else\<close>: when no branch is taken, \<open>points\<close> and \<open>waittime\<close> keep what they held
  before (\<open>prev\<close>; \<open>None\<close> when they are still unbound).
\<close>

definition price_order ::
  "item \<Rightarrow> (int \<times> int) option \<Rightarrow> nat list \<Rightarrow> ((int \<times> int) option \<times> nat list) outcome" where
  "price_order ord prev rs =
     (case in_level (name ord) ''BASIC'' of
        Inl e \<Rightarrow> Raised e
      | Inr True \<Rightarrow> roll 5 10 45 75 5 rs
      | Inr False \<Rightarrow>
          (case in_level (name ord) ''INTERMEDIATE'' of
             Inl e \<Rightarrow> Raised e
           | Inr True \<Rightarrow> roll 10 30 60 120 5 rs
           | Inr False \<Rightarrow>
               (case in_level (name ord) ''ADVANCED'' of
                  Inl e \<Rightarrow> Raised e
                | Inr True \<Rightarrow> roll 30 75 120 180 10 rs
                | Inr False \<Rightarrow> Returned (prev, rs))))"

text \<open>\<open>xs[i] = v\<close> with Python's indexing: a negative index counts from the end.\<close>

definition py_setitem :: "'a list \<Rightarrow> int \<Rightarrow> 'a \<Rightarrow> py_error + 'a list" where
  "py_setitem xs i v =
     (if 0 \<le> i \<and> i < int (length xs) then Inr (xs[nat i := v])
      else if i < 0 \<and> - int (length xs) \<le> i then Inr (xs[nat (int (length xs) + i) := v])
      else Inl IndexError)"

text \<open>The loop of \<open>create_customers\<close>: \<open>i\<close> is the loop variable, the second argument
  the number of rounds left, \<open>clock i\<close> the time read in round \<open>i\<close>.\<close>

fun create_customers_loop ::
  "nat \<Rightarrow> nat \<Rightarrow> game \<Rightarrow> (int \<times> int) option \<Rightarrow> (nat \<Rightarrow> real) \<Rightarrow> nat list
     \<Rightarrow> (game \<times> nat list) outcome" where
  "create_customers_loop i 0 g prev clock rs = Returned (g, rs)"
| "create_customers_loop i (Suc k) g prev clock rs =
     (let possible_orders = filter (\<lambda>it. recipe it \<noteq> None) (recipes (book g))
      in case rs of
           [] \<Rightarrow> Starved
         | r # rs1 \<Rightarrow>
             (case choice possible_orders r of
                Inl e \<Rightarrow> Raised e
              | Inr ord \<Rightarrow>
                  (case price_order ord prev rs1 of
                     Raised e \<Rightarrow> Raised e
                   | Starved \<Rightarrow> Starved
                   | Returned (None, rs2) \<Rightarrow> Raised UnboundLocalError
                   | Returned (Some (pts, wt), rs2) \<Rightarrow>
                       create_customers_loop (Suc i) k
                         (g\<lparr>customers := customers g @
                              [\<lparr>cust_name = int i, order = ord, points = pts,
                                waittime = wt, maketime = clock i\<rparr>]\<rparr>)
                         (Some (pts, wt)) clock rs2)))"

definition create_customers ::
  "game \<Rightarrow> nat \<Rightarrow> (nat \<Rightarrow> real) \<Rightarrow> nat list \<Rightarrow> (game \<times> nat list) outcome" where
  "create_customers g number clock rs = create_customers_loop 0 number g None clock rs"

definition update_customer ::
  "game \<Rightarrow> customer \<Rightarrow> real \<Rightarrow> nat list \<Rightarrow> (game \<times> nat list) outcome" where
  "update_customer g cust now rs =
     (let nm = cust_name cust;
          possible_orders = filter (\<lambda>it. recipe it \<noteq> None) (recipes (book g))
      in case rs of
           [] \<Rightarrow> Starved
         | r # rs1 \<Rightarrow>
             (case choice possible_orders r of
                Inl e \<Rightarrow> Raised e
              | Inr ord \<Rightarrow>
                  (case price_order ord None rs1 of
                     Raised e \<Rightarrow> Raised e
                   | Starved \<Rightarrow> Starved
                   | Returned (None, rs2) \<Rightarrow> Raised UnboundLocalError
                   | Returned (Some (pts, wt), rs2) \<Rightarrow>
                       (case py_setitem (customers g) (cust_name cust)
                               \<lparr>cust_name = nm, order = ord, points = pts,
                                waittime = wt, maketime = now\<rparr> of
                          Inl e \<Rightarrow> Raised e
                        | Inr cs \<Rightarrow> Returned (g\<lparr>customers := cs\<rparr>, rs2)))))"

definition give_points :: "customer \<Rightarrow> int" where
  "give_points c = points c"

definition deliver_order ::
  "game \<Rightarrow> item \<Rightarrow> customer \<Rightarrow> real \<Rightarrow> nat list \<Rightarrow> (game \<times> nat list) outcome" where
  "deliver_order g it cust now rs =
     (case list_remove (inventory (player g)) it of
        Inl e \<Rightarrow> Raised e
      | Inr inventory' \<Rightarrow>
          (let p1 = (player g)\<lparr>inventory := inventory'\<rparr>;
               p2 = (if item_eq it (order cust)
                     then p1\<lparr>score := score p1 + give_points cust\<rparr> else p1)
           in update_customer (g\<lparr>player := p2\<rparr>) cust now rs))"

section \<open>Game.setup\<close>

definition game_setup :: "(nat \<Rightarrow> real) \<Rightarrow> nat list \<Rightarrow> (game \<times> nat list) outcome" where
  "game_setup clock rs =
     (case create_book rs of
        Raised e \<Rightarrow> Raised e
      | Starved \<Rightarrow> Starved
      | Returned (bk, rs1) \<Rightarrow>
          (case create_map bk rs1 of
             Raised e \<Rightarrow> Raised e
           | Starved \<Rightarrow> Starved
           | Returned (locs, rs2) \<Rightarrow>
               (case create_player locs of
                  Inl e \<Rightarrow> Raised e
                | Inr p \<Rightarrow>
                    create_customers
                      \<lparr>player = p, locations = locs, book = bk, customers = []\<rparr>
                      4 clock rs2)))"


section \<open>Notions used to state the properties\<close>

text \<open>The ingredient list of an Item, empty for an Item without a recipe.\<close>

definition ings :: "item \<Rightarrow> item list" where
  "ings it = (case recipe it of None \<Rightarrow> [] | Some r \<Rightarrow> r)"

text \<open>
  The invariant of the generation loops, on the book built so far and the list of used
  Items: \<open>used\<close> is the concatenation of all ingredient lists, no two used Items have
  the same name, and every recipe has two ingredients taken from earlier positions.
\<close>

definition wf_book :: "item list \<Rightarrow> item list \<Rightarrow> bool" where
  "wf_book rcps used \<longleftrightarrow>
     used = concat (map ings rcps) \<and> distinct (map name used) \<and>
     (\<forall>i<length rcps. \<forall>r. recipe (rcps ! i) = Some r \<longrightarrow>
        length r = 2 \<and> set r \<subseteq> set (take i rcps))"

text \<open>The names listed under the key FOUND of a tier table, and those under the other
  keys.\<close>

definition found_names :: "(string \<times> string list) list \<Rightarrow> string list" where
  "found_names tbl = concat (map snd (filter (\<lambda>e. fst e = ''FOUND'') tbl))"

definition craft_names :: "(string \<times> string list) list \<Rightarrow> string list" where
  "craft_names tbl = concat (map snd (filter (\<lambda>e. fst e \<noteq> ''FOUND'') tbl))"

text \<open>The rank of a name's tier: the position in the table of the first tier that lists
  it. On \<open>ITEMS_BY_INGREDIENTS\<close> FOUND is 0, BASIC 1, INTERMEDIATE 2, ADVANCED 3.\<close>

fun tier_rank :: "(string \<times> string list) list \<Rightarrow> string \<Rightarrow> nat" where
  "tier_rank [] nm = 0"
| "tier_rank ((level, names) # rest) nm =
     (if nm \<in> set names then 0 else Suc (tier_rank rest nm))"

text \<open>A run of \<open>create_book\<close> in which no draw has to be repeated, and the book it
  returns.\<close>

definition example_draws :: "nat list" where
  "example_draws = [0, 1, 9, 2, 3, 4, 5, 6, 7, 8, 10, 11, 12, 13, 14, 15]"

definition example_book :: recipebook where
  "example_book =
     \<lparr>chapters = [''0'', ''1'', ''2'', ''3''],
      titles = [''Wounds'', ''Ailments'', ''Curses'', ''Hauntings''],
      recipes =
        [Item ''Purple Mushroom'' None, Item ''Forget-Me-Not'' None,
         Item ''Firefly'' None, Item ''Mandrake Root'' None,
         Item ''Green Mushroom'' None, Item ''Spring Water'' None,
         Item ''Red Mushroom'' None, Item ''Glow Worm'' None,
         Item ''Skull'' None,
         Item ''Goodberry''
          (Some [Item ''Purple Mushroom'' None, Item ''Forget-Me-Not'' None]),
         Item ''Antidote''
          (Some
            [Item ''Goodberry''
              (Some [Item ''Purple Mushroom'' None, Item ''Forget-Me-Not'' None]),
             Item ''Firefly'' None]),
         Item ''Evil Eye''
          (Some [Item ''Mandrake Root'' None, Item ''Green Mushroom'' None]),
         Item ''Health Potion''
          (Some [Item ''Spring Water'' None, Item ''Red Mushroom'' None]),
         Item ''Awakening''
          (Some [Item ''Glow Worm'' None, Item ''Skull'' None]),
         Item ''Amulet''
          (Some
            [Item ''Antidote''
              (Some
                [Item ''Goodberry''
                  (Some [Item ''Purple Mushroom'' None, Item ''Forget-Me-Not'' None]),
                 Item ''Firefly'' None]),
             Item ''Evil Eye''
              (Some [Item ''Mandrake Root'' None, Item ''Green Mushroom'' None])]),
         Item ''Banishing Sigil''
          (Some
            [Item ''Health Potion''
              (Some [Item ''Spring Water'' None, Item ''Red Mushroom'' None]),
             Item ''Awakening''
              (Some [Item ''Glow Worm'' None, Item ''Skull'' None])]),
         Item ''Substitute Doll''
          (Some
            [Item ''Amulet''
              (Some
                [Item ''Antidote''
                  (Some
                    [Item ''Goodberry''
                      (Some [Item ''Purple Mushroom'' None, Item ''Forget-Me-Not'' None]),
                     Item ''Firefly'' None]),
                 Item ''Evil Eye''
                  (Some [Item ''Mandrake Root'' None, Item ''Green Mushroom'' None])]),
             Item ''Banishing Sigil''
              (Some
                [Item ''Health Potion''
                  (Some [Item ''Spring Water'' None, Item ''Red Mushroom'' None]),
                 Item ''Awakening''
                  (Some [Item ''Glow Worm'' None, Item ''Skull'' None])])])]\<rparr>"

text \<open>
  A recipe compared with two Items as an unordered pair: it has exactly two ingredients,
  and they equal the two Items in one order or the other. \<open>makes x y it\<close> says that
  the Item \<open>it\<close> has such a recipe.
\<close>

fun unordered_pair_eq :: "item list \<Rightarrow> item \<Rightarrow> item \<Rightarrow> bool" where
  "unordered_pair_eq [a, b] x y =
     ((item_eq a x \<and> item_eq b y) \<or> (item_eq a y \<and> item_eq b x))"
| "unordered_pair_eq r x y = False"

definition makes :: "item \<Rightarrow> item \<Rightarrow> item \<Rightarrow> bool" where
  "makes x y it = (case recipe it of None \<Rightarrow> False | Some r \<Rightarrow> unordered_pair_eq r x y)"

text \<open>
  The Items a Location holds (none when its item list is \<open>None\<close>), the Items held
  by a list of Locations, and the Items placed at the Locations other than the Cauldron.
\<close>

definition held :: "location \<Rightarrow> item list" where
  "held l = (case items l of None \<Rightarrow> [] | Some xs \<Rightarrow> xs)"

definition all_held :: "location list \<Rightarrow> item list" where
  "all_held locs = concat (map held locs)"

definition placed :: "location list \<Rightarrow> item list" where
  "placed locs = all_held (filter (\<lambda>l. loc_name l \<noteq> ''Cauldron'') locs)"

text \<open>The found Items of a book, as \<open>create_map\<close> collects them.\<close>

definition found_items_of :: "recipebook \<Rightarrow> item list" where
  "found_items_of bk = filter (\<lambda>x. recipe x = None) (recipes bk)"

text \<open>
  How the second loop of \<open>create_map\<close> changes a Location: name and neighbors stay,
  the Cauldron keeps its items, any other item list is extended at its end.
\<close>

definition grows :: "location \<Rightarrow> location \<Rightarrow> bool" where
  "grows l l' \<longleftrightarrow>
     loc_name l' = loc_name l \<and> neighbors l' = neighbors l \<and>
     (if loc_name l = ''Cauldron'' then items l' = items l
      else (\<forall>xs. items l = Some xs \<longrightarrow> (\<exists>ys. items l' = Some (xs @ ys))))"

text \<open>A run of \<open>create_map\<close> on \<open>example_book\<close>; the sixth draw selects the
  Cauldron and is repeated.\<close>

definition example_map_draws :: "nat list" where
  "example_map_draws = [0, 0, 0, 0, 0, 0, 1, 0, 2, 0, 2, 1, 5, 0]"

definition example_locations :: "location list" where
  "example_locations =
     [\<lparr>loc_name = ''Cauldron'', items = None,
       neighbors = Some [(''N'', ''Forest'')]\<rparr>,
      \<lparr>loc_name = ''Swamp'',
       items = Some [Item ''Purple Mushroom'' None, Item ''Spring Water'' None],
       neighbors = Some [(''E'', ''Forest'')]\<rparr>,
      \<lparr>loc_name = ''Forest'',
       items = Some [Item ''Forget-Me-Not'' None, Item ''Red Mushroom'' None,
                     Item ''Skull'' None],
       neighbors = Some [(''W'', ''Swamp''), (''S'', ''Cauldron''), (''E'', ''Town'')]\<rparr>,
      \<lparr>loc_name = ''Town'', items = Some [Item ''Firefly'' None],
       neighbors = Some [(''W'', ''Forest''), (''N'', ''Cave''), (''E'', ''Graveyard'')]\<rparr>,
      \<lparr>loc_name = ''Cave'', items = Some [Item ''Mandrake Root'' None],
       neighbors = Some [(''S'', ''Town'')]\<rparr>,
      \<lparr>loc_name = ''Graveyard'',
       items = Some [Item ''Green Mushroom'' None, Item ''Glow Worm'' None],
       neighbors = Some [(''W'', ''Town'')]\<rparr>]"

text \<open>The calls \<open>self.game.player.pickup(item)\<close> and \<open>self.game.player.trash(item)\<close>
  of play.py, on the Game that owns the Player.\<close>

definition game_pickup :: "game \<Rightarrow> item \<Rightarrow> game" where
  "game_pickup g it = g\<lparr>player := pickup (player g) it\<rparr>"

definition game_trash :: "game \<Rightarrow> item \<Rightarrow> py_error + game" where
  "game_trash g it =
     (case trash (player g) it of
        Inl e \<Rightarrow> Inl e
      | Inr p \<Rightarrow> Inr (g\<lparr>player := p\<rparr>))"


text \<open>The names of the Locations, in the order of \<open>create_map\<close>.\<close>

definition location_names :: "string list" where
  "location_names = [''Cauldron'', ''Swamp'', ''Forest'', ''Town'', ''Cave'', ''Graveyard'']"

text \<open>
  A Game in the middle of a session: the Player stands in the Swamp with 20 points and
  holds a Firefly and a Goodberry, and four Customers wait. And the Customer that the
  draws 2, 3, 2 put into a slot at time 130.
\<close>

definition example_game :: game where
  "example_game =
     \<lparr>player =
        \<lparr>location =
           \<lparr>loc_name = ''Swamp'',
            items = Some [Item ''Purple Mushroom'' None, Item ''Spring Water'' None],
            neighbors = Some [(''E'', ''Forest'')]\<rparr>,
         inventory =
           [Item ''Firefly'' None,
            Item ''Goodberry''
              (Some [Item ''Purple Mushroom'' None, Item ''Forget-Me-Not'' None])],
         score = 20, completed = []\<rparr>,
      locations = example_locations,
      book = example_book,
      customers =
        [\<lparr>cust_name = 0,
          order = Item ''Goodberry''
                    (Some [Item ''Purple Mushroom'' None, Item ''Forget-Me-Not'' None]),
          points = 8, waittime = 55, maketime = 100\<rparr>,
         \<lparr>cust_name = 1,
          order = Item ''Awakening'' (Some [Item ''Glow Worm'' None, Item ''Skull'' None]),
          points = 15, waittime = 90, maketime = 101\<rparr>,
         \<lparr>cust_name = 2,
          order = Item ''Health Potion''
                    (Some [Item ''Spring Water'' None, Item ''Red Mushroom'' None]),
          points = 12, waittime = 60, maketime = 102\<rparr>,
         \<lparr>cust_name = 3,
          order = Item ''Evil Eye''
                    (Some [Item ''Mandrake Root'' None, Item ''Green Mushroom'' None]),
          points = 7, waittime = 70, maketime = 103\<rparr>]\<rparr>"


section \<open>The generated Recipe Book\<close>

declare redraw.simps [simp del]

lemma choice_Inr: "choice seq r = Inr x \<Longrightarrow> x \<in> set seq"
  by (auto simp: choice_def split: if_splits)

lemma redraw_Returned:
  "redraw rcps used d rs = Returned (draw, rs') \<Longrightarrow>
     \<not> item_in draw used \<and> (draw = d \<or> draw \<in> set rcps)"
proof (induction rcps used d rs rule: redraw.induct)
  case (1 rcps used d rs)
  show ?case
  proof (cases "item_in d used")
    case False
    with "1.prems" show ?thesis by (simp add: redraw.simps)
  next
    case True
    with "1.prems" obtain r rs1 x where rs: "rs = r # rs1" and c: "choice rcps r = Inr x"
      and rd: "redraw rcps used x rs1 = Returned (draw, rs')"
      by (auto simp: redraw.simps [of rcps used d rs] split: list.splits sum.splits)
    from "1.IH" [OF True rs c rd] choice_Inr [OF c] show ?thesis by auto
  qed
qed

lemma draw_ingredients_Returned:
  "draw_ingredients n rcps ing used rs = Returned (ing', used', rs') \<Longrightarrow>
     \<exists>new. ing' = ing @ new \<and> used' = used @ new \<and> length new = n \<and> set new \<subseteq> set rcps
        \<and> distinct (map name new) \<and> (\<forall>x\<in>set new. \<not> item_in x used)"
proof (induction n arbitrary: ing used rs)
  case 0
  then show ?case by simp
next
  case (Suc n)
  from Suc.prems obtain r rs1 d draw rs2 where rs: "rs = r # rs1"
    and c: "choice rcps r = Inr d"
    and rd: "redraw rcps used d rs1 = Returned (draw, rs2)"
    and rest: "draw_ingredients n rcps (ing @ [draw]) (used @ [draw]) rs2 = Returned (ing', used', rs')"
    by (auto split: list.splits sum.splits outcome.splits)
  from redraw_Returned [OF rd] choice_Inr [OF c]
  have d1: "\<not> item_in draw used" and d2: "draw \<in> set rcps" by auto
  from Suc.IH [OF rest] obtain new where new: "ing' = (ing @ [draw]) @ new"
    "used' = (used @ [draw]) @ new" "length new = n" "set new \<subseteq> set rcps"
    "distinct (map name new)" "\<forall>x\<in>set new. \<not> item_in x (used @ [draw])"
    by blast
  have "name draw \<notin> name ` set new"
    using new(6) by (auto simp: item_in_def item_eq_def list_ex_iff)
  moreover have "\<forall>x\<in>set new. \<not> item_in x used"
    using new(6) by (auto simp: item_in_def list_ex_iff)
  ultimately show ?case
    using new d1 d2 by (intro exI [of _ "draw # new"]) auto
qed


lemma wf_book_used: "wf_book rcps used \<Longrightarrow> used = concat (map ings rcps)"
  by (simp add: wf_book_def)

lemma wf_book_distinct: "wf_book rcps used \<Longrightarrow> distinct (map name used)"
  unfolding wf_book_def by blast

lemma wf_book_recipe:
  "wf_book rcps used \<Longrightarrow> i < length rcps \<Longrightarrow> recipe (rcps ! i) = Some r \<Longrightarrow>
     length r = 2 \<and> set r \<subseteq> set (take i rcps)"
  unfolding wf_book_def by blast

lemma wf_bookI:
  "used = concat (map ings rcps) \<Longrightarrow> distinct (map name used) \<Longrightarrow>
   (\<And>i r. i < length rcps \<Longrightarrow> recipe (rcps ! i) = Some r \<Longrightarrow>
      length r = 2 \<and> set r \<subseteq> set (take i rcps)) \<Longrightarrow> wf_book rcps used"
  unfolding wf_book_def by blast

lemma wf_book_empty: "wf_book [] []"
  by (simp add: wf_book_def)

lemma wf_book_found:
  assumes "wf_book rcps used"
  shows "wf_book (rcps @ map (\<lambda>nm. Item nm None) names) used"
proof (rule wf_bookI)
  have "concat (map ings (map (\<lambda>nm. Item nm None) names)) = []"
    by (induction names) (simp_all add: ings_def)
  then show "used = concat (map ings (rcps @ map (\<lambda>nm. Item nm None) names))"
    using wf_book_used [OF assms] by simp
  show "distinct (map name used)"
    by (rule wf_book_distinct [OF assms])
  fix i r
  assume i: "i < length (rcps @ map (\<lambda>nm. Item nm None) names)"
    and r: "recipe ((rcps @ map (\<lambda>nm. Item nm None) names) ! i) = Some r"
  show "length r = 2 \<and> set r \<subseteq> set (take i (rcps @ map (\<lambda>nm. Item nm None) names))"
  proof (cases "i < length rcps")
    case True
    with r have "recipe (rcps ! i) = Some r" by (simp add: nth_append)
    from wf_book_recipe [OF assms True this] True show ?thesis by simp
  next
    case False
    with i r show ?thesis by (simp add: nth_append)
  qed
qed

lemma wf_book_craft:
  assumes wf: "wf_book rcps used"
    and new: "length new = 2" "set new \<subseteq> set rcps" "distinct (map name new)"
      "\<forall>x\<in>set new. \<not> item_in x used"
  shows "wf_book (rcps @ [Item nm (Some new)]) (used @ new)"
proof (rule wf_bookI)
  have "name ` set new \<inter> name ` set used = {}"
    using new(4) unfolding item_in_def item_eq_def list_ex_iff by fastforce
  then have "name ` set used \<inter> name ` set new = {}" by blast
  then show "distinct (map name (used @ new))"
    using wf_book_distinct [OF wf] new(3) by simp
  show "used @ new = concat (map ings (rcps @ [Item nm (Some new)]))"
    using wf_book_used [OF wf] by (simp add: ings_def)
  fix i r
  assume i: "i < length (rcps @ [Item nm (Some new)])"
    and r: "recipe ((rcps @ [Item nm (Some new)]) ! i) = Some r"
  show "length r = 2 \<and> set r \<subseteq> set (take i (rcps @ [Item nm (Some new)]))"
  proof (cases "i < length rcps")
    case True
    with r have "recipe (rcps ! i) = Some r" by (simp add: nth_append)
    from wf_book_recipe [OF wf True this] True show ?thesis by simp
  next
    case False
    with i have "i = length rcps" by simp
    with r new(1,2) show ?thesis by simp
  qed
qed

lemma craft_level_Returned:
  "craft_level nms rcps used rs = Returned (rcps', used', rs') \<Longrightarrow> wf_book rcps used \<Longrightarrow>
     wf_book rcps' used' \<and>
     (\<exists>new. rcps' = rcps @ new \<and> map name new = nms \<and> (\<forall>x\<in>set new. recipe x \<noteq> None))"
proof (induction nms arbitrary: rcps used rs)
  case Nil
  then show ?case by simp
next
  case (Cons nm nms)
  from Cons.prems(1) obtain ing used1 rs1 where
    di: "draw_ingredients 2 rcps [] used rs = Returned (ing, used1, rs1)"
    and rest: "craft_level nms (rcps @ [Item nm (Some ing)]) used1 rs1 = Returned (rcps', used', rs')"
    by (auto split: outcome.splits)
  from draw_ingredients_Returned [OF di] obtain new0 where "ing = [] @ new0"
    "used1 = used @ new0" "length new0 = 2"
    "set new0 \<subseteq> set rcps" "distinct (map name new0)" "\<forall>x\<in>set new0. \<not> item_in x used"
    by blast
  then have ing: "used1 = used @ ing" "length ing = 2"
    "set ing \<subseteq> set rcps" "distinct (map name ing)" "\<forall>x\<in>set ing. \<not> item_in x used"
    by simp_all
  have wf1: "wf_book (rcps @ [Item nm (Some ing)]) used1"
    unfolding ing(1) using Cons.prems(2) ing(2-5) by (rule wf_book_craft)
  from Cons.IH [OF rest wf1] obtain new where new: "wf_book rcps' used'"
    "rcps' = (rcps @ [Item nm (Some ing)]) @ new" "map name new = nms"
    "\<forall>x\<in>set new. recipe x \<noteq> None"
    by blast
  show ?case
    using new by (intro conjI exI [of _ "Item nm (Some ing) # new"]) auto
qed

lemma found_names_Cons:
  "found_names ((l, ns) # tbl) = (if l = ''FOUND'' then ns @ found_names tbl else found_names tbl)"
  by (simp add: found_names_def)

lemma craft_names_Cons:
  "craft_names ((l, ns) # tbl) = (if l = ''FOUND'' then craft_names tbl else ns @ craft_names tbl)"
  by (simp add: craft_names_def)

lemma fill_levels_Returned:
  "fill_levels tbl rcps used rs = Returned (rcps', used', rs') \<Longrightarrow> wf_book rcps used \<Longrightarrow>
     wf_book rcps' used' \<and>
     (\<exists>new. rcps' = rcps @ new \<and> map name new = concat (map snd tbl) \<and>
        (\<forall>x\<in>set new. if recipe x = None then name x \<in> set (found_names tbl)
                          else name x \<in> set (craft_names tbl)))"
proof (induction tbl arbitrary: rcps used rs)
  case Nil
  then show ?case by simp
next
  case (Cons e tbl)
  obtain level names where e: "e = (level, names)" by (cases e)
  show ?case
  proof (cases "level = ''FOUND''")
    case True
    with Cons.prems(1) e have rest:
      "fill_levels tbl (rcps @ map (\<lambda>nm. Item nm None) names) used rs = Returned (rcps', used', rs')"
      by simp
    from Cons.IH [OF rest wf_book_found [OF Cons.prems(2)]] obtain new where new:
      "wf_book rcps' used'" "rcps' = (rcps @ map (\<lambda>nm. Item nm None) names) @ new"
      "map name new = concat (map snd tbl)"
      "\<forall>x\<in>set new. if recipe x = None then name x \<in> set (found_names tbl)
                          else name x \<in> set (craft_names tbl)"
      by blast
    have "\<forall>x\<in>set (map (\<lambda>nm. Item nm None) names @ new).
        if recipe x = None then name x \<in> set (found_names (e # tbl))
        else name x \<in> set (craft_names (e # tbl))"
      using new(4) by (auto simp: e True found_names_Cons craft_names_Cons)
    moreover have "map name (map (\<lambda>nm. Item nm None) names @ new) = concat (map snd (e # tbl))"
      using new(3) by (simp add: e comp_def)
    ultimately show ?thesis
      using new(1,2) by (intro conjI exI [of _ "map (\<lambda>nm. Item nm None) names @ new"]) simp_all
  next
    case False
    with Cons.prems(1) e obtain rcps1 used1 rs1 where
      cl: "craft_level names rcps used rs = Returned (rcps1, used1, rs1)"
      and rest: "fill_levels tbl rcps1 used1 rs1 = Returned (rcps', used', rs')"
      by (auto split: outcome.splits)
    from craft_level_Returned [OF cl Cons.prems(2)] obtain mid where mid:
      "wf_book rcps1 used1" "rcps1 = rcps @ mid" "map name mid = names"
      "\<forall>x\<in>set mid. recipe x \<noteq> None"
      by blast
    from Cons.IH [OF rest mid(1)] obtain new where new:
      "wf_book rcps' used'" "rcps' = rcps1 @ new"
      "map name new = concat (map snd tbl)"
      "\<forall>x\<in>set new. if recipe x = None then name x \<in> set (found_names tbl)
                          else name x \<in> set (craft_names tbl)"
      by blast
    have "\<forall>x\<in>set mid. name x \<in> set names"
      using mid(3) by (metis image_eqI set_map)
    with mid(4) new(4) have "\<forall>x\<in>set (mid @ new).
        if recipe x = None then name x \<in> set (found_names (e # tbl))
        else name x \<in> set (craft_names (e # tbl))"
      by (auto simp: e False found_names_Cons craft_names_Cons)
    moreover have "map name (mid @ new) = concat (map snd (e # tbl))"
      using new(3) mid(3) by (simp add: e)
    ultimately show ?thesis
      using new(1,2) mid(2) by (intro conjI exI [of _ "mid @ new"]) simp_all
  qed
qed


lemma create_book_from_wf:
  assumes "create_book_from tbl rs = Returned (bk, rs')"
  shows "\<exists>used. fill_levels tbl [] [] rs = Returned (recipes bk, used, rs') \<and> wf_book (recipes bk) used"
proof -
  from assms obtain rcps used where fl: "fill_levels tbl [] [] rs = Returned (rcps, used, rs')"
    and bk: "recipes bk = rcps"
    by (auto simp: create_book_from_def split: outcome.splits)
  from fill_levels_Returned [OF fl wf_book_empty] bk fl show ?thesis by auto
qed

lemma length2E:
  assumes "length xs = 2"
  obtains x y where "xs = [x, y]"
  using assms by (cases xs; cases "tl xs") auto


lemma create_book_example:
  "create_book_from ITEMS_BY_INGREDIENTS example_draws = Returned (example_book, [])"
  by (simp add: create_book_from_def ITEMS_BY_INGREDIENTS_def CHAPTER_TITLES_def choice_def
      item_in_def item_eq_def numeral_2_eq_2 redraw.simps example_draws_def example_book_def)

lemma create_book_small:
  "create_book_from [(''FOUND'', [''A'', ''B'', ''C'', ''D'']), (''BASIC'', [''E''])] [0, 0, 0, 5, 2]
     = Returned (\<lparr>chapters = [''0'', ''1'', ''2'', ''3''],
                  titles = [''Wounds'', ''Ailments'', ''Curses'', ''Hauntings''],
                  recipes = [Item ''A'' None, Item ''B'' None, Item ''C'' None, Item ''D'' None,
                             Item ''E'' (Some [Item ''A'' None, Item ''B'' None])]\<rparr>, [2])"
  by (simp add: create_book_from_def CHAPTER_TITLES_def choice_def
      item_in_def item_eq_def numeral_2_eq_2 redraw.simps)

text \<open>
  C2. In every book that the generation returns, no two ingredient references in the
  whole book name the same Item: the concatenation of all ingredient lists has pairwise
  different names, so no Item is an ingredient of two recipes or twice of one. For the
  tier lists found = [A, B, C, D], basic = [E], the recipe of E consists of exactly two
  Items with different names out of the four found Items.
\<close>

theorem create_book_ingredients_used_once:
  assumes "create_book_from tbl rs = Returned (bk, rs')"
    and "create_book_from [(''FOUND'', [A, B, C, D]), (''BASIC'', [E])] rs2 = Returned (bk2, rs2')"
  shows "distinct (map name (concat (map ings (recipes bk)))) \<and>
         (\<exists>x y. recipes bk2 = [Item A None, Item B None, Item C None, Item D None,
                               Item E (Some [x, y])] \<and>
            name x \<noteq> name y \<and>
            x \<in> {Item A None, Item B None, Item C None, Item D None} \<and>
            y \<in> {Item A None, Item B None, Item C None, Item D None})"
proof
  from create_book_from_wf [OF assms(1)] obtain used where
    "wf_book (recipes bk) used" by blast
  then show "distinct (map name (concat (map ings (recipes bk))))"
    using wf_book_used wf_book_distinct by blast
next
  let ?found = "[Item A None, Item B None, Item C None, Item D None]"
  from assms(2) obtain ing used rs1 where
    di: "draw_ingredients 2 ?found [] [] rs2 = Returned (ing, used, rs1)"
    and bk2: "recipes bk2 = ?found @ [Item E (Some ing)]"
    by (auto simp: create_book_from_def split: outcome.splits)
  from draw_ingredients_Returned [OF di] have ing: "length ing = 2" "set ing \<subseteq> set ?found"
    "distinct (map name ing)"
    by auto
  from ing(1) obtain x y where xy: "ing = [x, y]" by (rule length2E)
  with ing(2,3) bk2 show "\<exists>x y. recipes bk2 = [Item A None, Item B None, Item C None, Item D None,
                               Item E (Some [x, y])] \<and>
            name x \<noteq> name y \<and>
            x \<in> {Item A None, Item B None, Item C None, Item D None} \<and>
            y \<in> {Item A None, Item B None, Item C None, Item D None}"
    by simp
qed



theorem create_book_ingredients_used_once_witness:
  "create_book_from ITEMS_BY_INGREDIENTS example_draws = Returned (example_book, []) \<and>
   distinct (map name (concat (map ings (recipes example_book)))) \<and>
   (\<exists>x y. [Item ''A'' None, Item ''B'' None, Item ''C'' None, Item ''D'' None,
            Item ''E'' (Some [Item ''A'' None, Item ''B'' None])]
          = [Item ''A'' None, Item ''B'' None, Item ''C'' None, Item ''D'' None,
             Item ''E'' (Some [x, y])] \<and>
      name x \<noteq> name y \<and>
      x \<in> {Item ''A'' None, Item ''B'' None, Item ''C'' None, Item ''D'' None} \<and>
      y \<in> {Item ''A'' None, Item ''B'' None, Item ''C'' None, Item ''D'' None})"
  using create_book_ingredients_used_once [OF create_book_example create_book_small]
    create_book_example
  by simp

lemma tier_rank_mono:
  "distinct (concat (map snd tbl)) \<Longrightarrow> j \<le> i \<Longrightarrow> i < length (concat (map snd tbl)) \<Longrightarrow>
     tier_rank tbl (concat (map snd tbl) ! j) \<le> tier_rank tbl (concat (map snd tbl) ! i)"
proof (induction tbl arbitrary: i j)
  case Nil
  then show ?case by simp
next
  case (Cons e tbl)
  obtain level names where e: "e = (level, names)" by (cases e)
  let ?rest = "concat (map snd tbl)"
  from Cons.prems(1) e have d: "distinct ?rest" and disj: "set names \<inter> set ?rest = {}"
    by auto
  show ?case
  proof (cases "j < length names")
    case True
    then have "(names @ ?rest) ! j \<in> set names" by (simp add: nth_append)
    then show ?thesis by (simp add: e)
  next
    case False
    with Cons.prems(2) have i: "\<not> i < length names" by simp
    from False i Cons.prems(2,3) e have le: "j - length names \<le> i - length names"
      and lt: "i - length names < length ?rest"
      by auto
    from lt have ini: "?rest ! (i - length names) \<in> set ?rest" by (rule nth_mem)
    from le lt have "j - length names < length ?rest" by simp
    then have inj: "?rest ! (j - length names) \<in> set ?rest" by (rule nth_mem)
    from ini inj disj have "?rest ! (i - length names) \<notin> set names"
      "?rest ! (j - length names) \<notin> set names" by auto
    with Cons.IH [OF d le lt] False i show ?thesis
      by (simp add: e nth_append)
  qed
qed

lemma length_concat_const:
  "\<forall>x\<in>set xs. length (f x) = k \<Longrightarrow> length (concat (map f xs)) = k * length xs"
  by (induction xs) simp_all

text \<open>
  On \<open>ITEMS_BY_INGREDIENTS\<close> the sixteen ingredient references of a book are sixteen
  different Items among the first sixteen of the book, hence all of them: every Item
  but the last is used exactly once. Banishing Sigil, the last but one, can only be
  used by the last Item, so in every generated book the recipe of Substitute Doll
  contains Banishing Sigil, an Item of its own tier.
\<close>

lemma create_book_last_recipe:
  assumes "create_book rs = Returned (bk, rs')"
  shows "\<exists>a b. recipe (recipes bk ! 16) = Some [a, b] \<and>
           name (recipes bk ! 16) = ''Substitute Doll'' \<and>
           ''Banishing Sigil'' \<in> {name a, name b}"
proof -
  let ?T = ITEMS_BY_INGREDIENTS
  let ?NS = "concat (map snd ?T)"
  let ?rcps = "recipes bk"
  from assms have cb: "create_book_from ?T rs = Returned (bk, rs')"
    by (simp add: create_book_def)
  from create_book_from_wf [OF cb] obtain used where
    fl: "fill_levels ?T [] [] rs = Returned (?rcps, used, rs')" and wf: "wf_book ?rcps used"
    by blast
  from fill_levels_Returned [OF fl wf_book_empty] have
    names: "map name ?rcps = ?NS"
    and kinds: "\<forall>x\<in>set ?rcps. if recipe x = None then name x \<in> set (found_names ?T)
                          else name x \<in> set (craft_names ?T)"
    by auto
  have dNS: "distinct ?NS" and lNS: "length ?NS = 17"
    by (simp_all add: ITEMS_BY_INGREDIENTS_def)
  from names lNS have len: "length ?rcps = 17" by (metis length_map)
  have nm: "name (?rcps ! i) = ?NS ! i" if "i < 17" for i
    using that names len by (metis nth_map)
  have kind: "if recipe (?rcps ! i) = None then ?NS ! i \<in> set (found_names ?T)
              else ?NS ! i \<in> set (craft_names ?T)" if "i < 17" for i
  proof -
    from that len have "?rcps ! i \<in> set ?rcps" by simp
    with kinds have "if recipe (?rcps ! i) = None then name (?rcps ! i) \<in> set (found_names ?T)
        else name (?rcps ! i) \<in> set (craft_names ?T)" by (rule bspec)
    then show ?thesis unfolding nm [OF that] .
  qed
  have fnd: "set (found_names ?T) = set (take 9 ?NS)" and crf: "set (craft_names ?T) = set (drop 9 ?NS)"
    by (simp_all add: found_names_def craft_names_def ITEMS_BY_INGREDIENTS_def)
  have disj: "set (take 9 ?NS) \<inter> set (drop 9 ?NS) = {}"
    using dNS by (metis append_take_drop_id distinct_append)
  have in_take: "?NS ! i \<in> set (take k ?NS)" if "i < k" "k \<le> 17" for i k
  proof -
    from that lNS have "take k ?NS ! i \<in> set (take k ?NS)" by (intro nth_mem) simp
    with that show ?thesis by simp
  qed
  have in_drop: "?NS ! i \<in> set (drop 9 ?NS)" if "9 \<le> i" "i < 17" for i
  proof -
    from that lNS have "drop 9 ?NS ! (i - 9) \<in> set (drop 9 ?NS)" by (intro nth_mem) simp
    with that lNS show ?thesis by simp
  qed
  have lo: "recipe (?rcps ! i) = None" if "i < 9" for i
  proof (rule ccontr)
    assume "recipe (?rcps ! i) \<noteq> None"
    with kind [of i] that crf have "?NS ! i \<in> set (drop 9 ?NS)" by simp
    moreover from that have "?NS ! i \<in> set (take 9 ?NS)" by (intro in_take) simp_all
    ultimately show False using disj by blast
  qed
  have hi: "\<exists>a b. recipe (?rcps ! i) = Some [a, b] \<and> {a, b} \<subseteq> set (take i ?rcps)"
    if "9 \<le> i" "i < 17" for i
  proof -
    have "recipe (?rcps ! i) \<noteq> None"
    proof
      assume "recipe (?rcps ! i) = None"
      with kind [of i] that fnd have "?NS ! i \<in> set (take 9 ?NS)" by simp
      with in_drop [OF that] disj show False by blast
    qed
    then obtain r where r: "recipe (?rcps ! i) = Some r" by auto
    from that len have "i < length ?rcps" by simp
    from wf_book_recipe [OF wf this r] have "length r = 2" "set r \<subseteq> set (take i ?rcps)"
      by auto
    from this(1) obtain a b where "r = [a, b]" by (rule length2E)
    with r \<open>set r \<subseteq> set (take i ?rcps)\<close> show ?thesis by auto
  qed
  have used: "used = concat (map ings ?rcps)" and dused: "distinct (map name used)"
    using wf by (rule wf_book_used, rule wf_book_distinct)
  have split: "?rcps = take 9 ?rcps @ drop 9 ?rcps" by simp
  have "\<forall>x\<in>set (take 9 ?rcps). length (ings x) = 0"
  proof
    fix x assume "x \<in> set (take 9 ?rcps)"
    then obtain i where "i < 9" "x = ?rcps ! i"
      using len by (auto simp: in_set_conv_nth)
    with lo show "length (ings x) = 0" by (simp add: ings_def)
  qed
  then have l0: "length (concat (map ings (take 9 ?rcps))) = 0 * length (take 9 ?rcps)"
    by (rule length_concat_const)
  have "\<forall>x\<in>set (drop 9 ?rcps). length (ings x) = 2"
  proof
    fix x assume "x \<in> set (drop 9 ?rcps)"
    then obtain j where j: "j < 8" "x = drop 9 ?rcps ! j"
      using len by (auto simp: in_set_conv_nth)
    with len have x: "x = ?rcps ! (9 + j)" by simp
    from j(1) hi [of "9 + j"] obtain a b where "recipe (?rcps ! (9 + j)) = Some [a, b]"
      by auto
    with x show "length (ings x) = 2" by (simp add: ings_def)
  qed
  then have l2: "length (concat (map ings (drop 9 ?rcps))) = 2 * length (drop 9 ?rcps)"
    by (rule length_concat_const)
  have "length used = length (concat (map ings (take 9 ?rcps)))
      + length (concat (map ings (drop 9 ?rcps)))"
    unfolding used by (subst split) (simp only: map_append concat_append length_append)
  with l0 l2 len have lused: "length used = 16" by simp
  have src: "\<exists>i<17. \<exists>j<i. u = ?rcps ! j \<and> u \<in> set (ings (?rcps ! i))" if "u \<in> set used" for u
  proof -
    from that used obtain x where x: "x \<in> set ?rcps" "u \<in> set (ings x)" by auto
    then obtain i where i: "i < 17" "x = ?rcps ! i"
      using len by (auto simp: in_set_conv_nth)
    from x(2) obtain r where r: "recipe x = Some r" "u \<in> set r"
      by (cases "recipe x") (auto simp: ings_def)
    from i len have "i < length ?rcps" by simp
    from wf_book_recipe [OF wf this] r(1) i(2) have "set r \<subseteq> set (take i ?rcps)" by simp
    with r(2) have "u \<in> set (take i ?rcps)" by blast
    then obtain j where "j < i" "u = ?rcps ! j"
      by (auto simp: in_set_conv_nth)
    with i x(2) show ?thesis by blast
  qed
  have sub: "set (map name used) \<subseteq> set (take 16 ?NS)"
  proof
    fix n assume "n \<in> set (map name used)"
    then obtain u where u: "u \<in> set used" "n = name u" by auto
    from src [OF u(1)] obtain i j where ij: "i < 17" "j < i" "u = ?rcps ! j" by blast
    then have "j < 16" by simp
    with ij nm [of j] u(2) have "n = ?NS ! j" by simp
    with \<open>j < 16\<close> show "n \<in> set (take 16 ?NS)" by (simp add: in_take)
  qed
  have "card (set (map name used)) = length (map name used)"
    using dused by (rule distinct_card)
  with lused have "card (set (map name used)) = 16" by simp
  moreover have "card (set (take 16 ?NS)) = length (take 16 ?NS)"
    using dNS by (intro distinct_card distinct_take)
  then have "card (set (take 16 ?NS)) = 16" using lNS by simp
  ultimately have "set (map name used) = set (take 16 ?NS)"
    using sub by (intro card_subset_eq) simp_all
  moreover have "?NS ! 15 \<in> set (take 16 ?NS)" by (intro in_take) simp_all
  ultimately have "?NS ! 15 \<in> name ` set used" by simp
  then obtain u where u: "u \<in> set used" "name u = ?NS ! 15" by (metis imageE)
  from src [OF u(1)] obtain i j where ij: "i < 17" "j < i" "u = ?rcps ! j"
    "u \<in> set (ings (?rcps ! i))" by blast
  from ij(1,2) have j17: "j < 17" by simp
  with nm [of j] ij(3) u(2) have "?NS ! j = ?NS ! 15" by simp
  with dNS lNS j17 have "j = 15" by (simp add: nth_eq_iff_index_eq)
  with ij(1,2) have i16: "i = 16" by simp
  from hi [of 16] obtain a b where ab: "recipe (?rcps ! 16) = Some [a, b]" by auto
  with ij(4) i16 have "u \<in> {a, b}" by (simp add: ings_def)
  with u(2) have "?NS ! 15 \<in> {name a, name b}" by auto
  moreover have "?NS ! 15 = ''Banishing Sigil''" "?NS ! 16 = ''Substitute Doll''"
    by (simp_all add: ITEMS_BY_INGREDIENTS_def)
  ultimately show ?thesis using ab nm [of 16] by simp
qed

text \<open>
  C1 as stated does not hold: in the book generated from \<open>example_draws\<close> the recipe
  of Antidote (position 10) contains Goodberry, and both are BASIC Items.
\<close>

theorem create_book_strict_tiers_counterexample:
  "create_book example_draws = Returned (example_book, []) \<and>
   recipes example_book ! 10 =
     Item ''Antidote''
       (Some [Item ''Goodberry''
                (Some [Item ''Purple Mushroom'' None, Item ''Forget-Me-Not'' None]),
              Item ''Firefly'' None]) \<and>
   tier_rank ITEMS_BY_INGREDIENTS ''Goodberry'' = 1 \<and>
   tier_rank ITEMS_BY_INGREDIENTS ''Antidote'' = 1"
  using create_book_example
  by (simp add: create_book_def example_book_def ITEMS_BY_INGREDIENTS_def)

text \<open>
  C1, amended. In every book that the generation returns from a tier table without
  repeated names, every Item that is not listed under FOUND has a recipe of exactly two
  ingredients; each ingredient stands in the book before the Item that references it,
  and its tier is the Item's own tier or an earlier one, never a later one.
\<close>

theorem create_book_tiers:
  assumes "create_book_from tbl rs = Returned (bk, rs')"
    and "distinct (concat (map snd tbl))"
    and "i < length (recipes bk)"
    and "name (recipes bk ! i) \<notin> set (found_names tbl)"
  shows "\<exists>a b. recipe (recipes bk ! i) = Some [a, b] \<and>
           a \<in> set (take i (recipes bk)) \<and> b \<in> set (take i (recipes bk)) \<and>
           tier_rank tbl (name a) \<le> tier_rank tbl (name (recipes bk ! i)) \<and>
           tier_rank tbl (name b) \<le> tier_rank tbl (name (recipes bk ! i))"
proof -
  let ?rcps = "recipes bk"
  from create_book_from_wf [OF assms(1)] obtain used where
    fl: "fill_levels tbl [] [] rs = Returned (?rcps, used, rs')" and wf: "wf_book ?rcps used"
    by blast
  from fill_levels_Returned [OF fl wf_book_empty] have
    names: "map name ?rcps = concat (map snd tbl)"
    and kinds: "\<forall>x\<in>set ?rcps. if recipe x = None then name x \<in> set (found_names tbl)
                          else name x \<in> set (craft_names tbl)"
    by auto
  from assms(3) have "?rcps ! i \<in> set ?rcps" by simp
  with kinds assms(4) obtain r where r: "recipe (?rcps ! i) = Some r"
    by (cases "recipe (?rcps ! i)") auto
  from wf_book_recipe [OF wf assms(3) r] have len: "length r = 2"
    and sub: "set r \<subseteq> set (take i ?rcps)" by auto
  from len obtain a b where ab: "r = [a, b]" by (rule length2E)
  have rank: "tier_rank tbl (name q) \<le> tier_rank tbl (name (?rcps ! i))"
    if "q \<in> set (take i ?rcps)" for q
  proof -
    from that obtain j where j: "j < i" "j < length ?rcps" "q = ?rcps ! j"
      by (auto simp: in_set_conv_nth)
    have li: "i < length (concat (map snd tbl))"
      using assms(3) names by (metis length_map)
    have "name (?rcps ! j) = concat (map snd tbl) ! j"
      using j(2) names by (metis nth_map)
    moreover have "name (?rcps ! i) = concat (map snd tbl) ! i"
      using assms(3) names by (metis nth_map)
    moreover have "j \<le> i" using j(1) by simp
    ultimately show ?thesis
      using tier_rank_mono [OF assms(2) _ li, of j] j(3) by simp
  qed
  from sub ab have "a \<in> set (take i ?rcps)" "b \<in> set (take i ?rcps)" by auto
  with rank r ab show ?thesis by blast
qed


theorem create_book_tiers_witness:
  "create_book_from ITEMS_BY_INGREDIENTS example_draws = Returned (example_book, []) \<and>
   distinct (concat (map snd ITEMS_BY_INGREDIENTS)) \<and>
   10 < length (recipes example_book) \<and>
   name (recipes example_book ! 10) \<notin> set (found_names ITEMS_BY_INGREDIENTS) \<and>
   (\<exists>a b. recipe (recipes example_book ! 10) = Some [a, b] \<and>
      a \<in> set (take 10 (recipes example_book)) \<and> b \<in> set (take 10 (recipes example_book)) \<and>
      tier_rank ITEMS_BY_INGREDIENTS (name a)
        \<le> tier_rank ITEMS_BY_INGREDIENTS (name (recipes example_book ! 10)) \<and>
      tier_rank ITEMS_BY_INGREDIENTS (name b)
        \<le> tier_rank ITEMS_BY_INGREDIENTS (name (recipes example_book ! 10)))"
proof -
  have d: "distinct (concat (map snd ITEMS_BY_INGREDIENTS))"
    by (simp add: ITEMS_BY_INGREDIENTS_def)
  have l: "10 < length (recipes example_book)"
    by (simp add: example_book_def)
  have n: "name (recipes example_book ! 10) \<notin> set (found_names ITEMS_BY_INGREDIENTS)"
    by (simp add: example_book_def found_names_def ITEMS_BY_INGREDIENTS_def)
  from create_book_tiers [OF create_book_example d l n] create_book_example d l n
  show ?thesis by blast
qed

section \<open>Player.mix\<close>

lemma items_eq_length: "items_eq xs ys \<Longrightarrow> length xs = length ys"
  by (simp add: items_eq_def list_all2_lengthD)

lemma mix_loop_find:
  "mix_loop rcps ingredients =
     find (\<lambda>it. case recipe it of None \<Rightarrow> False
                 | Some r \<Rightarrow> items_eq (sorted_items ingredients) (sorted_items r)) rcps"
  by (induction rcps) (simp_all split: option.splits)

lemma sorted_items_pair:
  "sorted_items [a, b] = (if name a \<le> name b then [a, b] else [b, a])"
  by (simp add: sorted_items_def)

lemma items_eq_pair_iff:
  "items_eq (sorted_items [x, y]) (sorted_items r) \<longleftrightarrow> unordered_pair_eq r x y"
proof (cases "length r = 2")
  case True
  then obtain a b where r: "r = [a, b]" by (rule length2E)
  show ?thesis
    unfolding r sorted_items_pair by (auto simp: items_eq_def item_eq_def)
next
  case False
  have "\<not> unordered_pair_eq r x y"
    using False by (cases "(r, x, y)" rule: unordered_pair_eq.cases) auto
  moreover have "\<not> items_eq (sorted_items [x, y]) (sorted_items r)"
    using False items_eq_length [of "sorted_items [x, y]" "sorted_items r"]
    by (auto simp: sorted_items_def)
  ultimately show ?thesis by simp
qed

lemma unordered_pair_eq_commute: "unordered_pair_eq r x y = unordered_pair_eq r y x"
  by (cases "(r, x, y)" rule: unordered_pair_eq.cases) auto


text \<open>
  C5. For every Recipe Book and all Items x and y, mixing [x, y] and mixing [y, x] give
  the same result, and this result is the first Item of the book whose recipe equals
  {x, y} as an unordered pair, or none when the book has no such Item.
\<close>

theorem mix_unordered_pair:
  "mix bk [x, y] = mix bk [y, x] \<and> mix bk [x, y] = find (makes x y) (recipes bk)"
proof -
  have "mix bk [u, v] = find (makes u v) (recipes bk)" for u v
    unfolding mix_def mix_loop_find makes_def items_eq_pair_iff ..
  moreover have "makes x y = makes y x"
    by (rule ext) (simp add: makes_def unordered_pair_eq_commute [of _ x y] split: option.split)
  ultimately show ?thesis by simp
qed


theorem mix_unordered_pair_witness:
  "mix example_book [Item ''Firefly'' None, Item ''Goodberry'' None]
     = mix example_book [Item ''Goodberry'' None, Item ''Firefly'' None] \<and>
   find (makes (Item ''Firefly'' None) (Item ''Goodberry'' None)) (recipes example_book)
     = Some (Item ''Antidote''
               (Some [Item ''Goodberry''
                        (Some [Item ''Purple Mushroom'' None, Item ''Forget-Me-Not'' None]),
                      Item ''Firefly'' None]))"
proof -
  have h: "mix example_book [Item ''Firefly'' None, Item ''Goodberry'' None]
     = Some (Item ''Antidote''
               (Some [Item ''Goodberry''
                        (Some [Item ''Purple Mushroom'' None, Item ''Forget-Me-Not'' None]),
                      Item ''Firefly'' None]))"
    by (simp add: mix_def example_book_def items_eq_def item_eq_def sorted_items_def)
  note m = mix_unordered_pair [of example_book "Item ''Firefly'' None" "Item ''Goodberry'' None"]
  show ?thesis
    by (rule conjI [OF m [THEN conjunct1] trans [OF m [THEN conjunct2, symmetric] h]])
qed

lemma mix_loop_None:
  "\<forall>it\<in>set rcps. \<forall>r. recipe it = Some r \<longrightarrow> length r \<noteq> length ingredients
     \<Longrightarrow> mix_loop rcps ingredients = None"
proof (induction rcps)
  case Nil
  then show ?case by simp
next
  case (Cons it rcps)
  show ?case
  proof (cases "recipe it")
    case None
    with Cons show ?thesis by simp
  next
    case (Some r)
    with Cons.prems have "length r \<noteq> length ingredients" by simp
    then have "\<not> items_eq (sorted_items ingredients) (sorted_items r)"
      using items_eq_length [of "sorted_items ingredients" "sorted_items r"]
      by (auto simp: sorted_items_def)
    with Some Cons show ?thesis by simp
  qed
qed


text \<open>
  C10. In every book that the generation returns, mixing a list of ingredients whose
  length is not 2 (the empty list and a single ingredient among them) gives none.
\<close>

theorem mix_wrong_length:
  assumes "create_book_from tbl rs = Returned (bk, rs')"
    and "length ingredients \<noteq> 2"
  shows "mix bk ingredients = None"
proof -
  from create_book_from_wf [OF assms(1)] obtain used where wf: "wf_book (recipes bk) used"
    by blast
  have "\<forall>it\<in>set (recipes bk). \<forall>r. recipe it = Some r \<longrightarrow> length r \<noteq> length ingredients"
  proof (intro ballI allI impI)
    fix it r
    assume "it \<in> set (recipes bk)" and r: "recipe it = Some r"
    then obtain i where "i < length (recipes bk)" "recipes bk ! i = it"
      by (auto simp: in_set_conv_nth)
    with wf_book_recipe [OF wf, of i r] r have "length r = 2" by simp
    with assms(2) show "length r \<noteq> length ingredients" by simp
  qed
  then show ?thesis
    unfolding mix_def by (rule mix_loop_None)
qed


theorem mix_wrong_length_witness:
  "create_book_from ITEMS_BY_INGREDIENTS example_draws = Returned (example_book, []) \<and>
   length [Item ''Firefly'' None] \<noteq> 2 \<and>
   mix example_book [Item ''Firefly'' None] = None"
proof -
  have l: "length [Item ''Firefly'' None] \<noteq> 2" by simp
  from mix_wrong_length [OF create_book_example l] create_book_example l
  show ?thesis by blast
qed

section \<open>Game.create\_map\<close>

declare pick_location.simps [simp del]

lemma list_remove_mset:
  "list_remove xs x = Inr ys \<Longrightarrow>
     \<exists>u. u \<in> set xs \<and> item_eq u x \<and> mset xs = add_mset u (mset ys)"
proof (induction xs arbitrary: ys)
  case Nil
  then show ?case by simp
next
  case (Cons v vs)
  show ?case
  proof (cases "item_eq v x")
    case True
    with Cons.prems show ?thesis by auto
  next
    case False
    with Cons.prems obtain ys' where r: "list_remove vs x = Inr ys'" and ys: "ys = v # ys'"
      by (auto split: sum.splits)
    from Cons.IH [OF r] obtain u where "u \<in> set vs" "item_eq u x" "mset vs = add_mset u (mset ys')"
      by blast
    with ys show ?thesis by (intro exI [of _ u]) simp
  qed
qed

lemma found_item_eq:
  "recipe u = None \<Longrightarrow> recipe x = None \<Longrightarrow> item_eq u x \<Longrightarrow> u = x"
  by (simp add: item_eq_def item.expand)

lemma remove_found:
  assumes "\<forall>x\<in>set found. recipe x = None" and "choice found r = Inr sel"
    and "list_remove found sel = Inr found'"
  shows "mset found = add_mset sel (mset found')" and "\<forall>x\<in>set found'. recipe x = None"
proof -
  from choice_Inr [OF assms(2)] have sel: "sel \<in> set found" .
  from list_remove_mset [OF assms(3)] obtain u where u: "u \<in> set found" "item_eq u sel"
    "mset found = add_mset u (mset found')" by blast
  from assms(1) u(1) sel have "recipe u = None" "recipe sel = None" by auto
  with u(2) have "u = sel" by (simp add: found_item_eq)
  with u(3) show m: "mset found = add_mset sel (mset found')" by simp
  then have "set found = insert sel (set found')"
    by (metis set_mset_add_mset_insert set_mset_mset)
  then have "set found' \<subseteq> set found" by blast
  with assms(1) show "\<forall>x\<in>set found'. recipe x = None" by blast
qed

lemma take_items_Returned:
  "take_items n found its rs = Returned (found', its', rs') \<Longrightarrow>
   \<forall>x\<in>set found. recipe x = None \<Longrightarrow>
     (\<exists>new. its' = its @ new \<and> length new = n \<and> mset found = mset found' + mset new) \<and>
     (\<forall>x\<in>set found'. recipe x = None)"
proof (induction n arbitrary: found its rs)
  case 0
  then show ?case by simp
next
  case (Suc n)
  from Suc.prems(1) obtain r rs1 sel found1 where rs: "rs = r # rs1"
    and c: "choice found r = Inr sel" and rm: "list_remove found sel = Inr found1"
    and rest: "take_items n found1 (its @ [sel]) rs1 = Returned (found', its', rs')"
    by (auto split: list.splits sum.splits)
  from remove_found [OF Suc.prems(2) c rm] have m: "mset found = add_mset sel (mset found1)"
    and f1: "\<forall>x\<in>set found1. recipe x = None" by auto
  from Suc.IH [OF rest f1] obtain new where new: "its' = (its @ [sel]) @ new" "length new = n"
    "mset found1 = mset found' + mset new" and f': "\<forall>x\<in>set found'. recipe x = None"
    by blast
  have "\<exists>new. its' = its @ new \<and> length new = Suc n \<and> mset found = mset found' + mset new"
    using new m by (intro exI [of _ "sel # new"]) simp
  with f' show ?case by blast
qed


lemma all_held_Cons: "all_held (l # ls) = held l @ all_held ls"
  by (simp add: all_held_def)

lemma place_items_Returned:
  "place_items locs n found rs = Returned (locs', found', rs') \<Longrightarrow>
   \<forall>x\<in>set found. recipe x = None \<Longrightarrow> \<forall>l\<in>set locs. items l = None \<Longrightarrow>
     map loc_name locs' = map loc_name locs \<and>
     mset found = mset found' + mset (all_held locs') \<and>
     (\<forall>x\<in>set found'. recipe x = None) \<and>
     (\<forall>l\<in>set locs'. neighbors l = map_of MAP_SETUP (loc_name l)) \<and>
     (\<forall>l\<in>set locs'. if loc_name l = ''Cauldron'' then items l = None
                      else (\<exists>xs. items l = Some xs \<and> length xs = n)) \<and>
     length (all_held locs') = n * length (filter (\<lambda>l. loc_name l \<noteq> ''Cauldron'') locs)"
proof (induction locs arbitrary: found rs locs')
  case Nil
  then show ?case by (auto simp: all_held_def)
next
  case (Cons loc rest)
  from Cons.prems(1) obtain nb where nb: "map_of MAP_SETUP (loc_name loc) = Some nb"
    by (cases "map_of MAP_SETUP (loc_name loc)") auto
  from Cons.prems(3) have none: "items loc = None" and rest_none: "\<forall>l\<in>set rest. items l = None"
    by auto
  show ?case
  proof (cases "loc_name loc = ''Cauldron''")
    case True
    with Cons.prems(1) nb obtain rest' where
      r: "place_items rest n found rs = Returned (rest', found', rs')"
      and locs': "locs' = loc\<lparr>neighbors := Some nb\<rparr> # rest'"
      by (auto split: outcome.splits)
    have h: "held (loc\<lparr>neighbors := Some nb\<rparr>) = []"
      using none by (simp add: held_def)
    from Cons.IH [OF r Cons.prems(2) rest_none] show ?thesis
      unfolding locs' using True nb none h by (simp add: all_held_Cons)
  next
    case False
    with Cons.prems(1) nb obtain found1 loc_items rs1 rest' where
      t: "take_items n found [] rs = Returned (found1, loc_items, rs1)"
      and r: "place_items rest n found1 rs1 = Returned (rest', found', rs')"
      and locs': "locs' = loc\<lparr>neighbors := Some nb, items := Some loc_items\<rparr> # rest'"
      by (auto split: outcome.splits)
    from take_items_Returned [OF t Cons.prems(2)] have
      li: "length loc_items = n" and m: "mset found = mset found1 + mset loc_items"
      and f1: "\<forall>x\<in>set found1. recipe x = None"
      by auto
    have h: "held (loc\<lparr>neighbors := Some nb, items := Some loc_items\<rparr>) = loc_items"
      by (simp add: held_def)
    from Cons.IH [OF r f1 rest_none] show ?thesis
      unfolding locs' using False nb li m h by (simp add: all_held_Cons)
  qed
qed

lemma choice_index_Inr: "choice_index seq r = Inr s \<Longrightarrow> s < length seq"
  by (auto simp: choice_index_def split: if_splits)

lemma pick_location_Returned:
  "pick_location locs sel rs = Returned (sel', rs') \<Longrightarrow> sel < length locs \<Longrightarrow>
     sel' < length locs \<and> loc_name (locs ! sel') \<noteq> ''Cauldron''"
proof (induction locs sel rs rule: pick_location.induct)
  case (1 locs sel rs)
  show ?case
  proof (cases "loc_name (locs ! sel) = ''Cauldron''")
    case False
    with "1.prems" show ?thesis by (simp add: pick_location.simps)
  next
    case True
    with "1.prems"(1) obtain r rs1 s where rs: "rs = r # rs1" and c: "choice_index locs r = Inr s"
      and p: "pick_location locs s rs1 = Returned (sel', rs')"
      by (auto simp: pick_location.simps [of locs sel rs] split: list.splits sum.splits)
    from "1.IH" [OF True rs c p choice_index_Inr [OF c]] show ?thesis .
  qed
qed

lemma all_held_update:
  "sel < length locs \<Longrightarrow> items (locs ! sel) = Some its \<Longrightarrow>
     mset (all_held (locs[sel := (locs ! sel)\<lparr>items := Some (its @ [it])\<rparr>]))
       = add_mset it (mset (all_held locs))"
proof (induction locs arbitrary: sel)
  case Nil
  then show ?case by simp
next
  case (Cons l ls)
  show ?case
  proof (cases sel)
    case 0
    with Cons.prems show ?thesis by (simp add: all_held_Cons held_def)
  next
    case (Suc k)
    with Cons.prems Cons.IH [of k] show ?thesis by (simp add: all_held_Cons)
  qed
qed

lemma grows_refl: "grows l l"
  by (simp add: grows_def)

lemma grows_trans: "grows a b \<Longrightarrow> grows b c \<Longrightarrow> grows a c"
  unfolding grows_def by (auto split: if_splits)

lemma grows_append:
  "items l = Some its \<Longrightarrow> loc_name l \<noteq> ''Cauldron'' \<Longrightarrow> grows l (l\<lparr>items := Some (its @ [it])\<rparr>)"
  by (simp add: grows_def)

lemma list_all2_grows_refl: "list_all2 grows locs locs"
  by (simp add: list_all2_refl grows_refl)

lemma list_all2_grows_update:
  assumes "sel < length locs" "grows (locs ! sel) l'"
  shows "list_all2 grows locs (locs[sel := l'])"
proof -
  have "list_all2 grows (locs[sel := locs ! sel]) (locs[sel := l'])"
    using list_all2_grows_refl assms(2) by (rule list_all2_update_cong)
  then show ?thesis by simp
qed

lemma distribute_leftover_Returned:
  "distribute_leftover n locs found rs = Returned (locs', found', rs') \<Longrightarrow>
   \<forall>x\<in>set found. recipe x = None \<Longrightarrow>
     list_all2 grows locs locs' \<and>
     mset found + mset (all_held locs) = mset found' + mset (all_held locs') \<and>
     length found = length found' + n"
proof (induction n arbitrary: locs found rs)
  case 0
  then show ?case by (simp add: list_all2_grows_refl)
next
  case (Suc n)
  from Suc.prems(1) obtain r rs1 sel0 sel rs2 r2 rs3 selected_item loc_items found1 where
    rs: "rs = r # rs1" and c0: "choice_index locs r = Inr sel0"
    and p: "pick_location locs sel0 rs1 = Returned (sel, rs2)"
    and rs2: "rs2 = r2 # rs3" and c: "choice found r2 = Inr selected_item"
    and its: "items (locs ! sel) = Some loc_items"
    and rm: "list_remove found selected_item = Inr found1"
    and rest: "distribute_leftover n
        (locs[sel := (locs ! sel)\<lparr>items := Some (loc_items @ [selected_item])\<rparr>]) found1 rs3
          = Returned (locs', found', rs')"
    by (auto split: list.splits sum.splits outcome.splits option.splits)
  let ?locs1 = "locs[sel := (locs ! sel)\<lparr>items := Some (loc_items @ [selected_item])\<rparr>]"
  from pick_location_Returned [OF p choice_index_Inr [OF c0]] have sel: "sel < length locs"
    and nc: "loc_name (locs ! sel) \<noteq> ''Cauldron''" by auto
  from remove_found [OF Suc.prems(2) c rm] have m: "mset found = add_mset selected_item (mset found1)"
    and f1: "\<forall>x\<in>set found1. recipe x = None" by auto
  from Suc.IH [OF rest f1] have g1: "list_all2 grows ?locs1 locs'"
    and m1: "mset found1 + mset (all_held ?locs1) = mset found' + mset (all_held locs')"
    and l1: "length found1 = length found' + n"
    by auto
  from m have "size (mset found) = size (add_mset selected_item (mset found1))" by simp
  with l1 have l: "length found = length found' + Suc n" by simp
  have g0: "list_all2 grows locs ?locs1"
    using sel grows_append [OF its nc] by (rule list_all2_grows_update)
  have "list_all2 grows locs locs'"
    using grows_trans g0 g1 by (rule list_all2_trans)
  moreover have "mset found + mset (all_held locs) = mset found' + mset (all_held locs')"
    using m m1 all_held_update [OF sel its, of selected_item] by simp
  ultimately show ?case using l by blast
qed


lemma placed_all_held:
  "\<forall>l\<in>set locs. loc_name l = ''Cauldron'' \<longrightarrow> items l = None \<Longrightarrow> placed locs = all_held locs"
proof (induction locs)
  case Nil
  show ?case by (simp add: placed_def)
next
  case (Cons l ls)
  then have "placed ls = all_held ls" by simp
  moreover have "held l = []" if "loc_name l = ''Cauldron''"
    using that Cons.prems by (simp add: held_def)
  ultimately show ?case
    by (simp add: placed_def all_held_Cons)
qed


lemma create_map_example:
  "create_map example_book example_map_draws = Returned (example_locations, [])"
  by code_simp

text \<open>
  C8. After \<open>create_map\<close> the six Locations are there under their names, the Cauldron
  has no item list, the Items placed at the other Locations are exactly the found Items
  of the book, each as often as it is found there (so none is dropped or duplicated, and
  for found Items that are pairwise different each stands at exactly one place), every
  Location other than the Cauldron holds at least floor(F / 5) Items, and F Items are
  placed in all, F being the number of found Items.
\<close>

theorem create_map_distribution:
  assumes "create_map bk rs = Returned (locs, rs')"
  shows "map loc_name locs = [''Cauldron'', ''Swamp'', ''Forest'', ''Town'', ''Cave'', ''Graveyard''] \<and>
         (\<forall>l\<in>set locs. loc_name l = ''Cauldron'' \<longrightarrow> items l = None) \<and>
         mset (placed locs) = mset (found_items_of bk) \<and>
         (distinct (found_items_of bk) \<longrightarrow> distinct (placed locs)) \<and>
         (\<forall>l\<in>set locs. loc_name l \<noteq> ''Cauldron'' \<longrightarrow>
            (\<exists>xs. items l = Some xs \<and> length (found_items_of bk) div 5 \<le> length xs)) \<and>
         length (placed locs)
           = 5 * (length (found_items_of bk) div 5) + length (found_items_of bk) mod 5"
proof -
  let ?found = "found_items_of bk"
  let ?n = "length ?found div 5"
  have len5: "length initial_locations - 1 = 5"
    by (simp add: initial_locations_def)
  from assms obtain locs1 found1 rs1 found2 where
    pl: "place_items initial_locations ?n ?found rs = Returned (locs1, found1, rs1)"
    and dl: "distribute_leftover (length ?found mod 5) locs1 found1 rs1 = Returned (locs, found2, rs')"
    unfolding create_map_def Let_def len5 found_items_of_def
    by (auto split: outcome.splits)
  have f0: "\<forall>x\<in>set ?found. recipe x = None"
    by (simp add: found_items_of_def)
  have i0: "\<forall>l\<in>set initial_locations. items l = None"
    by (simp add: initial_locations_def Location_def)
  from place_items_Returned [OF pl f0 i0] have
    names1: "map loc_name locs1 = map loc_name initial_locations"
    and m1: "mset ?found = mset found1 + mset (all_held locs1)"
    and f1: "\<forall>x\<in>set found1. recipe x = None"
    and it1: "\<forall>l\<in>set locs1. if loc_name l = ''Cauldron'' then items l = None
                      else (\<exists>xs. items l = Some xs \<and> length xs = ?n)"
    and l1: "length (all_held locs1)
               = ?n * length (filter (\<lambda>l. loc_name l \<noteq> ''Cauldron'') initial_locations)"
    by blast+
  from distribute_leftover_Returned [OF dl f1] have
    g: "list_all2 grows locs1 locs"
    and m2: "mset found1 + mset (all_held locs1) = mset found2 + mset (all_held locs)"
    and l2: "length found1 = length found2 + length ?found mod 5"
    by blast+
  have "length (all_held locs1) = ?n * 5"
    using l1 by (simp add: initial_locations_def Location_def)
  moreover from m1 have "size (mset ?found) = size (mset found1 + mset (all_held locs1))"
    by simp
  ultimately have "length ?found = length found1 + ?n * 5" by simp
  with l2 have "length found2 = 0" by presburger
  then have "found2 = []" by simp
  with m1 m2 have all: "mset (all_held locs) = mset ?found" by simp
  have rel: "\<exists>l1\<in>set locs1. grows l1 l" if "l \<in> set locs" for l
  proof -
    from that obtain i where i: "i < length locs" "locs ! i = l"
      by (auto simp: in_set_conv_nth)
    from g i(1) have "i < length locs1" "grows (locs1 ! i) (locs ! i)"
      by (simp_all add: list_all2_conv_all_nth)
    with i(2) show ?thesis by (metis nth_mem)
  qed
  have caul: "\<forall>l\<in>set locs. loc_name l = ''Cauldron'' \<longrightarrow> items l = None"
  proof (intro ballI impI)
    fix l assume "l \<in> set locs" and c: "loc_name l = ''Cauldron''"
    from rel [OF this(1)] obtain l1 where l1: "l1 \<in> set locs1" "grows l1 l" by blast
    with c it1 show "items l = None" by (auto simp: grows_def split: if_splits)
  qed
  have many: "\<forall>l\<in>set locs. loc_name l \<noteq> ''Cauldron'' \<longrightarrow>
            (\<exists>xs. items l = Some xs \<and> ?n \<le> length xs)"
  proof (intro ballI impI)
    fix l assume "l \<in> set locs" and c: "loc_name l \<noteq> ''Cauldron''"
    from rel [OF this(1)] obtain l1 where l1: "l1 \<in> set locs1" "grows l1 l" by blast
    from l1(2) c have c1: "loc_name l1 \<noteq> ''Cauldron''" by (simp add: grows_def)
    from it1 l1(1) have "if loc_name l1 = ''Cauldron'' then items l1 = None
        else (\<exists>xs. items l1 = Some xs \<and> length xs = ?n)" by (rule bspec)
    with c1 obtain xs where xs: "items l1 = Some xs" "length xs = ?n" by auto
    with l1(2) c1 obtain ys where "items l = Some (xs @ ys)" by (auto simp: grows_def)
    with xs(2) show "\<exists>xs. items l = Some xs \<and> ?n \<le> length xs" by simp
  qed
  have names: "map loc_name locs = map loc_name locs1"
    using g by (induction rule: list_all2_induct) (simp_all add: grows_def)
  have p: "placed locs = all_held locs"
    using caul by (rule placed_all_held)
  have "size (mset (placed locs)) = size (mset ?found)"
    using all p by simp
  then have len: "length (placed locs) = 5 * ?n + length ?found mod 5"
    by simp
  have d: "distinct ?found \<longrightarrow> distinct (placed locs)"
    using all p by (metis mset_eq_imp_distinct_iff)
  from names names1 have "map loc_name locs
      = [''Cauldron'', ''Swamp'', ''Forest'', ''Town'', ''Cave'', ''Graveyard'']"
    by (simp add: initial_locations_def Location_def)
  with caul all p d many len show ?thesis by simp
qed


theorem create_map_distribution_witness:
  "create_map example_book example_map_draws = Returned (example_locations, []) \<and>
   map loc_name example_locations
     = [''Cauldron'', ''Swamp'', ''Forest'', ''Town'', ''Cave'', ''Graveyard''] \<and>
   mset (placed example_locations) = mset (found_items_of example_book) \<and>
   length (placed example_locations)
     = 5 * (length (found_items_of example_book) div 5)
       + length (found_items_of example_book) mod 5"
  using create_map_distribution [OF create_map_example] create_map_example
  by blast

section \<open>Player.move\<close>

lemma create_map_parts:
  assumes "create_map bk rs = Returned (locs, rs')"
  obtains locs1 found1 rs1 found2 where
    "place_items initial_locations (length (found_items_of bk) div 5) (found_items_of bk) rs
       = Returned (locs1, found1, rs1)"
    "distribute_leftover (length (found_items_of bk) mod 5) locs1 found1 rs1
       = Returned (locs, found2, rs')"
proof -
  have len5: "length initial_locations - 1 = 5"
    by (simp add: initial_locations_def)
  from assms that show ?thesis
    unfolding create_map_def Let_def len5 found_items_of_def
    by (auto split: outcome.splits)
qed

lemma create_map_neighbors:
  assumes "create_map bk rs = Returned (locs, rs')"
  shows "map loc_name locs = location_names"
    and "\<forall>l\<in>set locs. neighbors l = map_of MAP_SETUP (loc_name l)"
proof -
  from assms obtain locs1 found1 rs1 found2 where
    pl: "place_items initial_locations (length (found_items_of bk) div 5) (found_items_of bk) rs
       = Returned (locs1, found1, rs1)"
    and dl: "distribute_leftover (length (found_items_of bk) mod 5) locs1 found1 rs1
       = Returned (locs, found2, rs')"
    by (rule create_map_parts)
  have f0: "\<forall>x\<in>set (found_items_of bk). recipe x = None"
    by (simp add: found_items_of_def)
  have i0: "\<forall>l\<in>set initial_locations. items l = None"
    by (simp add: initial_locations_def Location_def)
  from place_items_Returned [OF pl f0 i0] have
    names1: "map loc_name locs1 = map loc_name initial_locations"
    and f1: "\<forall>x\<in>set found1. recipe x = None"
    and nb1: "\<forall>l\<in>set locs1. neighbors l = map_of MAP_SETUP (loc_name l)"
    by blast+
  from distribute_leftover_Returned [OF dl f1] have g: "list_all2 grows locs1 locs"
    by blast
  have "map loc_name locs = map loc_name locs1"
    using g by (induction rule: list_all2_induct) (simp_all add: grows_def)
  with names1 show "map loc_name locs = location_names"
    by (simp add: initial_locations_def Location_def location_names_def)
  show "\<forall>l\<in>set locs. neighbors l = map_of MAP_SETUP (loc_name l)"
  proof
    fix l assume "l \<in> set locs"
    then obtain i where i: "i < length locs" "locs ! i = l"
      by (auto simp: in_set_conv_nth)
    from g i(1) have i1: "i < length locs1" and gr: "grows (locs1 ! i) (locs ! i)"
      by (simp_all add: list_all2_conv_all_nth)
    from i1 have "locs1 ! i \<in> set locs1" by (rule nth_mem)
    with nb1 have "neighbors (locs1 ! i) = map_of MAP_SETUP (loc_name (locs1 ! i))" by blast
    with gr i(2) show "neighbors l = map_of MAP_SETUP (loc_name l)"
      by (simp add: grows_def)
  qed
qed

lemma get_location_Inr:
  assumes "n \<in> set (map loc_name locs)"
  shows "\<exists>l. get_location locs n = Inr l \<and> l \<in> set locs \<and> loc_name l = n"
proof -
  let ?found = "filter (\<lambda>l. loc_name l = n) locs"
  from assms have ne: "?found \<noteq> []"
    by (auto simp: filter_empty_conv)
  then have "last ?found \<in> set ?found" by (rule last_in_set)
  then have "last ?found \<in> set locs" "loc_name (last ?found) = n" by auto
  with ne show ?thesis by (simp add: get_location_def)
qed

lemma MAP_SETUP_closed:
  assumes "nm \<in> set location_names"
  shows "\<exists>nb. map_of MAP_SETUP nm = Some nb \<and> snd ` set nb \<subseteq> set location_names"
  using assms by (auto simp: location_names_def MAP_SETUP_def)


text \<open>
  C6. In a Game whose Locations come from \<open>create_map\<close> and whose Player stands at one
  of them, \<open>move\<close> never fails: in a direction that the current Location declares, the
  Player is moved to the Location of the Game that has the declared name, and in any
  other direction the Game stays as it is. From the Swamp, whose only neighbor is the
  Forest in the East, moving North changes nothing and moving East leads to the Forest.
\<close>

theorem move_declared_neighbor:
  assumes "create_map bk rs = Returned (locs, rs')"
    and "locations g = locs"
    and "location (player g) \<in> set locs"
  shows "\<exists>nb. neighbors (location (player g)) = Some nb \<and>
           (case map_of nb direction of
              None \<Rightarrow> move g direction = Inr g
            | Some next_loc \<Rightarrow>
                (\<exists>l. l \<in> set locs \<and> loc_name l = next_loc \<and>
                     move g direction = Inr (g\<lparr>player := (player g)\<lparr>location := l\<rparr>\<rparr>))) \<and>
           (loc_name (location (player g)) = ''Swamp'' \<longrightarrow>
              nb = [(''E'', ''Forest'')] \<and> move g ''N'' = Inr g \<and>
              (\<exists>l. l \<in> set locs \<and> loc_name l = ''Forest'' \<and>
                   move g ''E'' = Inr (g\<lparr>player := (player g)\<lparr>location := l\<rparr>\<rparr>)))"
proof -
  let ?here = "location (player g)"
  from create_map_neighbors [OF assms(1)] have names: "map loc_name locs = location_names"
    and nbs: "\<forall>l\<in>set locs. neighbors l = map_of MAP_SETUP (loc_name l)" by auto
  from assms(3) names have here: "loc_name ?here \<in> set location_names"
    by (metis image_eqI set_map)
  from MAP_SETUP_closed [OF here] obtain nb where nb: "map_of MAP_SETUP (loc_name ?here) = Some nb"
    and closed: "snd ` set nb \<subseteq> set location_names" by blast
  from nbs assms(3) nb have n: "neighbors ?here = Some nb" by simp
  have step: "\<exists>l. l \<in> set locs \<and> loc_name l = next_loc \<and>
                 move g d = Inr (g\<lparr>player := (player g)\<lparr>location := l\<rparr>\<rparr>)"
    if "map_of nb d = Some next_loc" for d next_loc
  proof -
    from that have "(d, next_loc) \<in> set nb" by (rule map_of_SomeD)
    then have d: "d \<in> set (map fst nb)" and "next_loc \<in> snd ` set nb" by force+
    with closed names have "next_loc \<in> set (map loc_name locs)" by auto
    from get_location_Inr [OF this] obtain l where
      l: "get_location locs next_loc = Inr l" "l \<in> set locs" "loc_name l = next_loc" by blast
    have "move g d = Inr (g\<lparr>player := (player g)\<lparr>location := l\<rparr>\<rparr>)"
      using n d that l(1) assms(2) by (simp add: move_def)
    with l(2,3) show ?thesis by blast
  qed
  have stay: "move g d = Inr g" if "map_of nb d = None" for d
  proof -
    from that have "d \<notin> set (map fst nb)" by (simp add: map_of_eq_None_iff)
    with n show ?thesis by (simp add: move_def)
  qed
  have gen: "case map_of nb direction of
              None \<Rightarrow> move g direction = Inr g
            | Some next_loc \<Rightarrow>
                (\<exists>l. l \<in> set locs \<and> loc_name l = next_loc \<and>
                     move g direction = Inr (g\<lparr>player := (player g)\<lparr>location := l\<rparr>\<rparr>))"
    using step [of direction] stay [of direction] by (cases "map_of nb direction") auto
  have swamp: "nb = [(''E'', ''Forest'')] \<and> move g ''N'' = Inr g \<and>
              (\<exists>l. l \<in> set locs \<and> loc_name l = ''Forest'' \<and>
                   move g ''E'' = Inr (g\<lparr>player := (player g)\<lparr>location := l\<rparr>\<rparr>))"
    if "loc_name ?here = ''Swamp''"
  proof -
    from nb that have nbv: "nb = [(''E'', ''Forest'')]" by (simp add: MAP_SETUP_def)
    then have "map_of nb ''N'' = None" "map_of nb ''E'' = Some ''Forest''" by simp_all
    with step [of "''E''" "''Forest''"] stay [of "''N''"] nbv show ?thesis by blast
  qed
  from n gen swamp show ?thesis by blast
qed


theorem move_declared_neighbor_witness:
  "create_map example_book example_map_draws = Returned (example_locations, []) \<and>
   locations example_game = example_locations \<and>
   location (player example_game) \<in> set example_locations \<and>
   move example_game ''N'' = Inr example_game \<and>
   (\<exists>l. l \<in> set example_locations \<and> loc_name l = ''Forest'' \<and>
        move example_game ''E''
          = Inr (example_game\<lparr>player := (player example_game)\<lparr>location := l\<rparr>\<rparr>))"
proof -
  have h2: "locations example_game = example_locations"
    by (simp add: example_game_def)
  have h3: "location (player example_game) \<in> set example_locations"
    by (simp add: example_game_def example_locations_def)
  have sw: "loc_name (location (player example_game)) = ''Swamp''"
    by (simp add: example_game_def)
  from move_declared_neighbor [OF create_map_example h2 h3, of "''N''"] sw
    create_map_example h2 h3
  show ?thesis by blast
qed

section \<open>Player.deliver\_order and Game.update\_customer\<close>


lemma list_remove_present:
  "item_in x xs \<Longrightarrow> \<exists>ys. list_remove xs x = Inr ys"
  by (induction xs) (auto simp: item_in_def split: sum.splits)

lemma randrange_lower: "0 \<le> step \<Longrightarrow> start \<le> randrange start stop step r"
  by (simp add: randrange_def)

lemma roll_Returned:
  "roll lo hi start stop step rs = Returned (pw, rs') \<Longrightarrow> 0 \<le> step \<Longrightarrow>
     \<exists>pts wt. pw = Some (pts, wt) \<and> start \<le> wt"
  by (auto simp: roll_def randrange_lower split: list.splits)

lemma price_order_Returned:
  assumes "price_order ord prev rs = Returned (Some (pts, wt), rs')"
    and "\<forall>p0 w0. prev = Some (p0, w0) \<longrightarrow> 0 < w0"
  shows "0 < wt"
proof -
  from assms(1) consider
    "roll 5 10 45 75 5 rs = Returned (Some (pts, wt), rs')"
    | "roll 10 30 60 120 5 rs = Returned (Some (pts, wt), rs')"
    | "roll 30 75 120 180 10 rs = Returned (Some (pts, wt), rs')"
    | "prev = Some (pts, wt)"
    by (auto simp: price_order_def split: sum.splits bool.splits if_splits)
  then show ?thesis
  proof cases
    case 1
    from roll_Returned [OF this] show ?thesis by auto
  next
    case 2
    from roll_Returned [OF this] show ?thesis by auto
  next
    case 3
    from roll_Returned [OF this] show ?thesis by auto
  next
    case 4
    with assms(2) show ?thesis by simp
  qed
qed





lemma price_order_returns:
  assumes "name ord \<in> set (craft_names ITEMS_BY_INGREDIENTS)"
  shows "\<exists>pts wt. price_order ord prev (r2 # r3 # rs') = Returned (Some (pts, wt), rs')"
  using assms
  by (auto simp: price_order_def in_level_def ITEMS_BY_INGREDIENTS_def craft_names_def roll_def)

lemma create_book_craftable:
  assumes "create_book rs0 = Returned (bk, rs0')"
  shows "filter (\<lambda>it. recipe it \<noteq> None) (recipes bk) \<noteq> []"
    and "\<forall>x\<in>set (recipes bk). recipe x \<noteq> None \<longrightarrow> name x \<in> set (craft_names ITEMS_BY_INGREDIENTS)"
proof -
  from assms have cb: "create_book_from ITEMS_BY_INGREDIENTS rs0 = Returned (bk, rs0')"
    by (simp add: create_book_def)
  from create_book_from_wf [OF cb] obtain used where
    fl: "fill_levels ITEMS_BY_INGREDIENTS [] [] rs0 = Returned (recipes bk, used, rs0')"
    by blast
  from fill_levels_Returned [OF fl wf_book_empty] have
    names: "map name (recipes bk) = concat (map snd ITEMS_BY_INGREDIENTS)"
    and kinds: "\<forall>x\<in>set (recipes bk).
        if recipe x = None then name x \<in> set (found_names ITEMS_BY_INGREDIENTS)
        else name x \<in> set (craft_names ITEMS_BY_INGREDIENTS)"
    by auto
  from kinds show "\<forall>x\<in>set (recipes bk). recipe x \<noteq> None \<longrightarrow>
      name x \<in> set (craft_names ITEMS_BY_INGREDIENTS)"
    by auto
  have "''Goodberry'' \<in> set (map name (recipes bk))"
    unfolding names by (simp add: ITEMS_BY_INGREDIENTS_def)
  then obtain x where x: "x \<in> set (recipes bk)" "name x = ''Goodberry''" by auto
  have "''Goodberry'' \<notin> set (found_names ITEMS_BY_INGREDIENTS)"
    by (simp add: found_names_def ITEMS_BY_INGREDIENTS_def)
  moreover from kinds x(1) have "if recipe x = None
      then name x \<in> set (found_names ITEMS_BY_INGREDIENTS)
      else name x \<in> set (craft_names ITEMS_BY_INGREDIENTS)" by (rule bspec)
  ultimately have "recipe x \<noteq> None" using x(2) by (auto split: if_splits)
  with x(1) show "filter (\<lambda>it. recipe it \<noteq> None) (recipes bk) \<noteq> []"
    by (auto simp: filter_empty_conv)
qed

lemma update_customer_returns:
  assumes "create_book rs0 = Returned (book g, rs0')"
    and "0 \<le> cust_name cust" and "cust_name cust < int (length (customers g))"
  shows "\<exists>g'. update_customer g cust now (r1 # r2 # r3 # rs') = Returned (g', rs')"
proof -
  let ?possible = "filter (\<lambda>it. recipe it \<noteq> None) (recipes (book g))"
  from create_book_craftable [OF assms(1)] have ne: "?possible \<noteq> []"
    and kinds: "\<forall>x\<in>set (recipes (book g)). recipe x \<noteq> None \<longrightarrow>
        name x \<in> set (craft_names ITEMS_BY_INGREDIENTS)" by auto
  from ne obtain ord where c: "choice ?possible r1 = Inr ord"
    by (simp add: choice_def)
  from choice_Inr [OF c] kinds have "name ord \<in> set (craft_names ITEMS_BY_INGREDIENTS)"
    by auto
  from price_order_returns [OF this] obtain pts wt where
    po: "price_order ord None (r2 # r3 # rs') = Returned (Some (pts, wt), rs')" by blast
  from assms(2,3) obtain cs where "py_setitem (customers g) (cust_name cust)
       \<lparr>cust_name = cust_name cust, order = ord, points = pts, waittime = wt, maketime = now\<rparr>
         = Inr cs"
    by (simp add: py_setitem_def Let_def)
  with c po show ?thesis by (simp add: update_customer_def Let_def)
qed

lemma deliver_order_returns:
  assumes "item_in it (inventory (player g))"
    and "create_book rs0 = Returned (book g, rs0')"
    and "0 \<le> cust_name cust" and "cust_name cust < int (length (customers g))"
  shows "\<exists>g'. deliver_order g it cust now (r1 # r2 # r3 # rs') = Returned (g', rs')"
proof -
  from list_remove_present [OF assms(1)] obtain inv1 where
    rm: "list_remove (inventory (player g)) it = Inr inv1" by blast
  let ?p1 = "(player g)\<lparr>inventory := inv1\<rparr>"
  let ?p2 = "if item_eq it (order cust) then ?p1\<lparr>score := score ?p1 + give_points cust\<rparr> else ?p1"
  let ?g2 = "g\<lparr>player := ?p2\<rparr>"
  have "\<exists>g'. update_customer ?g2 cust now (r1 # r2 # r3 # rs') = Returned (g', rs')"
    using assms(2-4) by (intro update_customer_returns [of rs0 _ rs0']) simp_all
  with rm show ?thesis by (simp add: deliver_order_def Let_def)
qed










section \<open>Game.create\_customers\<close>

lemma create_customers_loop_Returned:
  "create_customers_loop i k g prev clock rs = Returned (g', rs') \<Longrightarrow>
   \<forall>p0 w0. prev = Some (p0, w0) \<longrightarrow> 0 < w0 \<Longrightarrow>
     \<exists>news. customers g' = customers g @ news \<and> length news = k \<and>
        (\<forall>j<k. cust_name (news ! j) = int (i + j) \<and> maketime (news ! j) = clock (i + j) \<and>
                0 < waittime (news ! j))"
proof (induction k arbitrary: i g prev rs)
  case 0
  then show ?case by simp
next
  case (Suc k)
  let ?possible = "filter (\<lambda>it. recipe it \<noteq> None) (recipes (book g))"
  from Suc.prems(1) obtain r rs1 ord pts wt rs2 where rs: "rs = r # rs1"
    and c: "choice ?possible r = Inr ord"
    and po: "price_order ord prev rs1 = Returned (Some (pts, wt), rs2)"
    and rest: "create_customers_loop (Suc i) k
        (g\<lparr>customers := customers g @
            [\<lparr>cust_name = int i, order = ord, points = pts, waittime = wt, maketime = clock i\<rparr>]\<rparr>)
        (Some (pts, wt)) clock rs2 = Returned (g', rs')"
    by (auto simp: Let_def split: list.splits sum.splits outcome.splits option.splits prod.splits)
  let ?new = "\<lparr>cust_name = int i, order = ord, points = pts, waittime = wt, maketime = clock i\<rparr>"
  from price_order_Returned [OF po Suc.prems(2)] have wt: "0 < wt" .
  then have prev': "\<forall>p0 w0. Some (pts, wt) = Some (p0, w0) \<longrightarrow> 0 < w0" by simp
  from Suc.IH [OF rest prev'] obtain news where news:
    "customers g' = (customers g @ [?new]) @ news" "length news = k"
    "\<forall>j<k. cust_name (news ! j) = int (Suc i + j) \<and> maketime (news ! j) = clock (Suc i + j) \<and>
                0 < waittime (news ! j)"
    by auto
  have "\<forall>j<Suc k. cust_name ((?new # news) ! j) = int (i + j) \<and>
          maketime ((?new # news) ! j) = clock (i + j) \<and> 0 < waittime ((?new # news) ! j)"
  proof (intro allI impI)
    fix j assume j: "j < Suc k"
    show "cust_name ((?new # news) ! j) = int (i + j) \<and>
          maketime ((?new # news) ! j) = clock (i + j) \<and> 0 < waittime ((?new # news) ! j)"
    proof (cases j)
      case 0
      with wt show ?thesis by simp
    next
      case (Suc m)
      with j news(3) show ?thesis by simp
    qed
  qed
  with news(1,2) show ?case
    by (intro exI [of _ "?new # news"]) simp
qed

lemma create_customers_example:
  "create_customers (example_game\<lparr>customers := []\<rparr>) 2 (\<lambda>i. 100 + real i) [0, 3, 2, 4, 5, 6]
   = Returned (example_game\<lparr>customers := take 2 (customers example_game)\<rparr>, [])"
  by (simp add: create_customers_def numeral_2_eq_2 example_game_def example_book_def
      price_order_def in_level_def ITEMS_BY_INGREDIENTS_def roll_def randint_def randrange_def
      choice_def)

section \<open>Player.pickup and Player.trash\<close>

lemma deepcopy_id: "deepcopy it = it"
proof (induction it)
  case (Item nm r)
  show ?case
  proof (cases r)
    case None
    then show ?thesis by simp
  next
    case (Some xs)
    with Item have "map deepcopy xs = xs"
      by (intro map_idI) auto
    with Some show ?thesis by simp
  qed
qed

lemma trash_after_append:
  "\<exists>inv'. list_remove (inv0 @ [it]) it = Inr inv' \<and>
          mset (map name inv') = mset (map name inv0) \<and>
          (\<not> item_in it inv0 \<longrightarrow> inv' = inv0)"
proof (induction inv0)
  case Nil
  show ?case by (simp add: item_eq_def item_in_def)
next
  case (Cons v vs)
  then obtain inv' where inv': "list_remove (vs @ [it]) it = Inr inv'"
    "mset (map name inv') = mset (map name vs)" "\<not> item_in it vs \<longrightarrow> inv' = vs" by blast
  show ?case
  proof (cases "item_eq v it")
    case True
    then show ?thesis by (simp add: item_eq_def item_in_def)
  next
    case False
    with inv' show ?thesis by (simp add: item_in_def)
  qed
qed


text \<open>
  C9. For a Location of the Game and an Item of its item list: \<open>pickup\<close> appends a copy
  of the Item, equal to it, to the inventory and changes nothing else, so the Locations
  with their item lists, the Player's Location and the Recipe Book are as before.
  Trashing the Item afterwards succeeds, and again leaves the Locations, the Player's
  Location and the book untouched; the inventory then has the names it had before the
  pickup, and is the same list when it held no Item of that name.
\<close>

theorem pickup_trash_frame:
  assumes "l \<in> set (locations g)" and "items l = Some its" and "it \<in> set its"
  shows "inventory (player (game_pickup g it)) = inventory (player g) @ [it] \<and>
         locations (game_pickup g it) = locations g \<and>
         location (player (game_pickup g it)) = location (player g) \<and>
         book (game_pickup g it) = book g \<and>
         (\<exists>g2. game_trash (game_pickup g it) it = Inr g2 \<and>
            locations g2 = locations g \<and> l \<in> set (locations g2) \<and>
            location (player g2) = location (player g) \<and> book g2 = book g \<and>
            mset (map name (inventory (player g2))) = mset (map name (inventory (player g))) \<and>
            (\<not> item_in it (inventory (player g)) \<longrightarrow>
               inventory (player g2) = inventory (player g)))"
proof -
  from trash_after_append [of "inventory (player g)" it] obtain inv' where
    inv': "list_remove (inventory (player g) @ [it]) it = Inr inv'"
    "mset (map name inv') = mset (map name (inventory (player g)))"
    "\<not> item_in it (inventory (player g)) \<longrightarrow> inv' = inventory (player g)" by blast
  have "game_trash (game_pickup g it) it
          = Inr (g\<lparr>player := (player g)\<lparr>inventory := inv'\<rparr>\<rparr>)"
    using inv'(1) by (simp add: game_trash_def game_pickup_def trash_def pickup_def deepcopy_id)
  with inv'(2,3) assms(1) show ?thesis
    by (simp add: game_pickup_def pickup_def deepcopy_id)
qed



theorem pickup_trash_frame_witness:
  "location (player example_game) \<in> set (locations example_game) \<and>
   items (location (player example_game))
     = Some [Item ''Purple Mushroom'' None, Item ''Spring Water'' None] \<and>
   Item ''Purple Mushroom'' None
     \<in> set [Item ''Purple Mushroom'' None, Item ''Spring Water'' None] \<and>
   inventory (player (game_pickup example_game (Item ''Purple Mushroom'' None)))
     = inventory (player example_game) @ [Item ''Purple Mushroom'' None] \<and>
   locations (game_pickup example_game (Item ''Purple Mushroom'' None))
     = locations example_game \<and>
   (\<exists>g2. game_trash (game_pickup example_game (Item ''Purple Mushroom'' None))
             (Item ''Purple Mushroom'' None) = Inr g2 \<and>
         locations g2 = locations example_game \<and> book g2 = book example_game)"
proof -
  have h1: "location (player example_game) \<in> set (locations example_game)"
    by (simp add: example_game_def example_locations_def)
  have h2: "items (location (player example_game))
              = Some [Item ''Purple Mushroom'' None, Item ''Spring Water'' None]"
    by (simp add: example_game_def)
  have h3: "Item ''Purple Mushroom'' None
              \<in> set [Item ''Purple Mushroom'' None, Item ''Spring Water'' None]"
    by simp
  from pickup_trash_frame [OF h1 h2 h3] h1 h2 h3 show ?thesis by blast
qed

end
